theory Spec2Isabelle
  imports Main "HOL-Library.Sublist"
begin

section \<open>Python strings\<close>

text \<open>
  A Python \<open>str\<close> is modelled as a \<open>string\<close> whose characters are the code points below
  256.  On this alphabet \<open>str.isspace\<close> and the regular-expression class \<open>\s\<close> hold of the
  twelve characters below, and \<open>\d\<close> (as well as \<open>int\<close>) accepts exactly \<open>0\<close> to \<open>9\<close>.
\<close>

definition isspace :: "char \<Rightarrow> bool" where
  "isspace c = (c \<in> set [CHR 0x09, CHR 0x0A, CHR 0x0B, CHR 0x0C, CHR 0x0D,
                          CHR 0x1C, CHR 0x1D, CHR 0x1E, CHR 0x1F, CHR 0x20,
                          CHR 0x85, CHR 0xA0])"

definition isdigit :: "char \<Rightarrow> bool" where
  "isdigit c = (c \<in> set ''0123456789'')"

definition digit_value :: "char \<Rightarrow> int" where
  "digit_value c = of_char c - 48"

text \<open>\<open>sub in s\<close>: a scan over the start positions of \<open>s\<close>.\<close>

fun py_in :: "string \<Rightarrow> string \<Rightarrow> bool" where
  "py_in sub [] = (sub = [])"
| "py_in sub (c # cs) = (prefix sub (c # cs) \<or> py_in sub cs)"

text \<open>\<open>s.strip()\<close> and \<open>s.endswith(t)\<close>.\<close>

definition strip :: "string \<Rightarrow> string" where
  "strip s = rev (dropWhile isspace (rev (dropWhile isspace s)))"

definition endswith :: "string \<Rightarrow> string \<Rightarrow> bool" where
  "endswith s t = suffix t s"

text \<open>
  \<open>s.split(sep)\<close>, left to right over non-overlapping occurrences of \<open>sep\<close>.  Every
  call of the program passes a non-empty literal separator, so the \<open>ValueError\<close> that
  Python raises for an empty separator has no branch here.
\<close>

fun split_from :: "string \<Rightarrow> string \<Rightarrow> string \<Rightarrow> string list" where
  "split_from sep acc [] = [rev acc]"
| "split_from sep acc (c # cs) =
     (if sep \<noteq> [] \<and> prefix sep (c # cs)
      then rev acc # split_from sep [] (drop (length sep - 1) cs)
      else split_from sep (c # acc) cs)"

definition py_split :: "string \<Rightarrow> string \<Rightarrow> string list" where
  "py_split s sep = split_from sep [] s"

definition newline :: string where
  "newline = [CHR 0x0A]"

text \<open>\<open>os.path.basename\<close> on a POSIX path: whatever follows the last slash.\<close>

definition basename :: "string \<Rightarrow> string" where
  "basename p = rev (takeWhile (\<lambda>c. c \<noteq> CHR ''/'') (rev p))"

text \<open>A \<open>for\<close> loop whose body may \<open>return\<close>: the first iteration that returns decides.\<close>

fun first_some :: "('a \<Rightarrow> 'b option) \<Rightarrow> 'a list \<Rightarrow> 'b option" where
  "first_some f [] = None"
| "first_some f (x # xs) = (case f x of Some y \<Rightarrow> Some y | None \<Rightarrow> first_some f xs)"

section \<open>Integers and their decimal text\<close>

datatype error = ValueError

definition decimal :: "string \<Rightarrow> int" where
  "decimal ds = foldl (\<lambda>a c. 10 * a + digit_value c) 0 ds"

text \<open>
  \<open>int(s)\<close> in base ten.  White space around the number is dropped; here that is the
  white space of C together with the two characters above 127 that count as space, and
  not the separators \<open>0x1C\<close> to \<open>0x1F\<close>, which \<open>str.strip\<close> does drop.  One sign is
  allowed and the digits may be grouped by single underscores.  A number with more than
  \<open>sys.int_info.default_max_str_digits\<close> digits is refused, leading zeros counted and
  underscores not.  Every refusal is a \<open>ValueError\<close>.
\<close>

definition int_space :: "char \<Rightarrow> bool" where
  "int_space c = (c \<in> set [CHR 0x09, CHR 0x0A, CHR 0x0B, CHR 0x0C, CHR 0x0D,
                            CHR 0x20, CHR 0x85, CHR 0xA0])"

definition int_strip :: "string \<Rightarrow> string" where
  "int_strip s = rev (dropWhile int_space (rev (dropWhile int_space s)))"

definition max_str_digits :: nat where
  "max_str_digits = 4300"

fun digits_tail :: "string \<Rightarrow> bool" where
  "digits_tail [] = True"
| "digits_tail (c # cs) =
     (if c = CHR ''_''
      then (case cs of [] \<Rightarrow> False | d # ds \<Rightarrow> isdigit d \<and> digits_tail ds)
      else isdigit c \<and> digits_tail cs)"

definition int_body_ok :: "string \<Rightarrow> bool" where
  "int_body_ok b = (case b of [] \<Rightarrow> False | c # cs \<Rightarrow> isdigit c \<and> digits_tail cs)"

definition py_int :: "string \<Rightarrow> error + int" where
  "py_int s =
     (let t = int_strip s;
          negative = (t \<noteq> [] \<and> hd t = CHR ''-'');
          body = (if t \<noteq> [] \<and> (hd t = CHR ''-'' \<or> hd t = CHR ''+'') then tl t else t)
      in if int_body_ok body \<and> length (filter isdigit body) \<le> max_str_digits
         then Inr ((if negative then - 1 else 1) * decimal (filter isdigit body))
         else Inl ValueError)"

text \<open>
  The decimal text of an integer.  It is what \<open>str(n)\<close> returns for a number of at most
  \<open>max_str_digits\<close> digits; for a longer one \<open>str\<close> raises.
\<close>

definition digit_char :: "nat \<Rightarrow> char" where
  "digit_char n = ''0123456789'' ! n"

fun str_nat :: "nat \<Rightarrow> string" where
  "str_nat n = (if n < 10 then [digit_char n] else str_nat (n div 10) @ [digit_char (n mod 10)])"

declare str_nat.simps [simp del]

definition decimal_text :: "int \<Rightarrow> string" where
  "decimal_text n = (if n < 0 then CHR ''-'' # str_nat (nat (- n)) else str_nat (nat n))"

section \<open>Duration tokens\<close>

text \<open>
  The four patterns of \<open>duration_to_seconds\<close>, in the order of the dictionary:
  \<open>(\d+)d\<close>, \<open>(\d+)h\<close>, \<open>(\d+)m\<close>, \<open>(\d+)s\<close>.
\<close>

datatype unit_name = Days | Hours | Minutes | Seconds

fun unit_letter :: "unit_name \<Rightarrow> char" where
  "unit_letter Days = CHR ''d''"
| "unit_letter Hours = CHR ''h''"
| "unit_letter Minutes = CHR ''m''"
| "unit_letter Seconds = CHR ''s''"

fun unit_weight :: "unit_name \<Rightarrow> int" where
  "unit_weight Days = 86400"
| "unit_weight Hours = 3600"
| "unit_weight Minutes = 60"
| "unit_weight Seconds = 1"

definition patterns :: "unit_name list" where
  "patterns = [Days, Hours, Minutes, Seconds]"

text \<open>
  An attempt to match \<open>(\d+)u\<close> at the start of \<open>s\<close>.  The greedy \<open>\d+\<close> takes the whole
  run of digits; giving a digit back cannot help, since the letter would then have to
  match a digit.  The result is group 1.
\<close>

definition match_unit :: "unit_name \<Rightarrow> string \<Rightarrow> string option" where
  "match_unit u s =
     (let g = takeWhile isdigit s
      in if g = [] then None
         else (case dropWhile isdigit s of
                 [] \<Rightarrow> None
               | c # _ \<Rightarrow> if c = unit_letter u then Some g else None))"

text \<open>\<open>re.search\<close>: the attempt at the leftmost start position that succeeds.\<close>

fun search_unit :: "unit_name \<Rightarrow> string \<Rightarrow> string option" where
  "search_unit u [] = None"
| "search_unit u (c # cs) =
     (case match_unit u (c # cs) of Some g \<Rightarrow> Some g | None \<Rightarrow> search_unit u cs)"

text \<open>One round of the loop over the patterns; a failing \<open>int\<close> would leave the function.\<close>

definition add_unit :: "string \<Rightarrow> error + int \<Rightarrow> unit_name \<Rightarrow> error + int" where
  "add_unit s acc u =
     (case acc of
        Inl e \<Rightarrow> Inl e
      | Inr total_seconds \<Rightarrow>
          (case search_unit u s of
             None \<Rightarrow> Inr total_seconds
           | Some g \<Rightarrow>
               (case py_int g of
                  Inl e \<Rightarrow> Inl e
                | Inr v \<Rightarrow> Inr (total_seconds + v * unit_weight u))))"

text \<open>The argument is \<open>None\<close> or a string; both \<open>None\<close> and the empty string are falsy.\<close>

definition duration_to_seconds :: "string option \<Rightarrow> error + int" where
  "duration_to_seconds duration_str =
     (case duration_str of
        None \<Rightarrow> Inr 0
      | Some s \<Rightarrow> if s = [] then Inr 0 else foldl (add_unit s) (Inr 0) patterns)"

text \<open>The decomposition that \<open>seconds_to_duration_format\<close> computes before it prints.\<close>

definition breakdown :: "int \<Rightarrow> int \<times> int \<times> int \<times> int" where
  "breakdown total_seconds =
     (total_seconds div 86400,
      (total_seconds mod 86400) div 3600,
      (total_seconds mod 3600) div 60,
      total_seconds mod 60)"

text \<open>
  The token of the round-trip property: each part of the breakdown written as a decimal
  integer followed by its unit letter, the four parts joined by a separator.
\<close>

definition breakdown_token :: "string \<Rightarrow> int \<Rightarrow> string" where
  "breakdown_token sep total_seconds =
     (case breakdown total_seconds of
        (days, hours, minutes, seconds) \<Rightarrow>
          decimal_text days @ ''d'' @ sep @ decimal_text hours @ ''h'' @ sep
            @ decimal_text minutes @ ''m'' @ sep @ decimal_text seconds @ ''s'')"

text \<open>
  The component of a token for one unit, in the words of the specification: the
  non-negative integer that stands immediately before the unit letter, if there is one.
\<close>

definition trailing_digits :: "string \<Rightarrow> string" where
  "trailing_digits s = rev (takeWhile isdigit (rev s))"

definition component_digits :: "unit_name \<Rightarrow> string \<Rightarrow> string" where
  "component_digits u tok =
     (if unit_letter u \<in> set tok
      then trailing_digits (takeWhile (\<lambda>c. c \<noteq> unit_letter u) tok)
      else [])"

definition component :: "unit_name \<Rightarrow> string \<Rightarrow> int option" where
  "component u tok =
     (let ds = component_digits u tok in if ds = [] then None else Some (decimal ds))"

definition component_value :: "unit_name \<Rightarrow> string \<Rightarrow> int" where
  "component_value u tok = (case component u tok of None \<Rightarrow> 0 | Some v \<Rightarrow> v)"

text \<open>The number that one pattern contributes before weighting: group 1 of its match, or nothing.\<close>

definition found_value :: "unit_name \<Rightarrow> string \<Rightarrow> int" where
  "found_value u s = (case search_unit u s of None \<Rightarrow> 0 | Some g \<Rightarrow> decimal g)"

text \<open>Whether group 1 of the match of a pattern, if there is a match, is short enough for \<open>int\<close>.\<close>

definition group_fits :: "unit_name \<Rightarrow> string \<Rightarrow> bool" where
  "group_fits u s =
     (case search_unit u s of None \<Rightarrow> True | Some g \<Rightarrow> length g \<le> max_str_digits)"

text \<open>The length of the longest run of digits in a string.\<close>

fun longest_digit_run :: "string \<Rightarrow> nat" where
  "longest_digit_run [] = 0"
| "longest_digit_run (c # cs) =
     max (length (takeWhile isdigit (c # cs))) (longest_digit_run cs)"

text \<open>
  A token has a recognizable component when some digit is immediately followed by one of
  the unit letters.
\<close>

fun recognizable :: "string \<Rightarrow> bool" where
  "recognizable (c # c' # cs) =
     ((isdigit c \<and> c' \<in> set ''dhms'') \<or> recognizable (c' # cs))"
| "recognizable cs = False"

section \<open>Statistics lines\<close>

text \<open>
  Both statistics patterns have the shape
  \<open>LABEL\s*([\d\.]+)\s*(%)\s*\[([^\]]+)\]\<close> with the label \<open>Up:\<close> or \<open>Down:\<close>.  An
  attempt at the start of \<open>s\<close> reads the pieces from left to right.  Each greedy piece
  takes its whole run: the character classes of neighbouring pieces are disjoint, so a
  shorter run would leave a character that the next piece cannot match.  The result is
  the three groups.
\<close>

definition in_percentage :: "char \<Rightarrow> bool" where
  "in_percentage c = (isdigit c \<or> c = CHR ''.'')"

definition match_stats :: "string \<Rightarrow> string \<Rightarrow> (string \<times> string \<times> string) option" where
  "match_stats label s =
     (if \<not> prefix label s then None
      else
        (let r1 = dropWhile isspace (drop (length label) s);
             g1 = takeWhile in_percentage r1;
             r2 = dropWhile isspace (dropWhile in_percentage r1)
         in if g1 = [] then None
            else
              (case r2 of
                 [] \<Rightarrow> None
               | p # r3 \<Rightarrow>
                   if p \<noteq> CHR ''%'' then None
                   else
                     (case dropWhile isspace r3 of
                        [] \<Rightarrow> None
                      | b # r4 \<Rightarrow>
                          if b \<noteq> CHR ''['' then None
                          else
                            (let g3 = takeWhile (\<lambda>c. c \<noteq> CHR '']'') r4
                             in if g3 = [] \<or> dropWhile (\<lambda>c. c \<noteq> CHR '']'') r4 = []
                                then None
                                else Some (g1, ''%'', g3))))))"

fun search_stats :: "string \<Rightarrow> string \<Rightarrow> (string \<times> string \<times> string) option" where
  "search_stats label [] = match_stats label []"
| "search_stats label (c # cs) =
     (case match_stats label (c # cs) of
        Some m \<Rightarrow> Some m
      | None \<Rightarrow> search_stats label cs)"

definition up_pattern :: string where
  "up_pattern = ''Up:''"

definition down_pattern :: string where
  "down_pattern = ''Down:''"

section \<open>Extraction records\<close>

text \<open>
  The dictionary that both extraction functions build.  The four context fields are
  keys that may be missing.
\<close>

record extraction =
  archivo_pdf :: string
  url :: string
  uptime_porcentaje :: string
  uptime_unidad :: string
  uptime_duracion :: string
  downtime_porcentaje :: string
  downtime_unidad :: string
  downtime_duracion :: string
  pagina :: nat
  periodo_reporte :: "string option"
  horas_reporte :: "string option"
  tipo_sensor :: "string option"
  tiempo_carga_promedio :: "string option"

definition decl_marker :: string where
  "decl_marker = ''Probe, Group, Device:''"

definition stats_marker :: string where
  "stats_marker = ''Uptime Stats:''"

text \<open>The record of a statistics line, when both patterns match it.\<close>

definition stats_record :: "string \<Rightarrow> string \<Rightarrow> nat \<Rightarrow> string \<Rightarrow> extraction option" where
  "stats_record pdf_path the_url page_num uptime_line =
     (case search_stats up_pattern uptime_line of
        None \<Rightarrow> None
      | Some (up1, up2, up3) \<Rightarrow>
          (case search_stats down_pattern uptime_line of
             None \<Rightarrow> None
           | Some (down1, down2, down3) \<Rightarrow>
               Some \<lparr> archivo_pdf = basename pdf_path,
                      url = the_url,
                      uptime_porcentaje = up1,
                      uptime_unidad = up2,
                      uptime_duracion = up3,
                      downtime_porcentaje = down1,
                      downtime_unidad = down2,
                      downtime_duracion = down3,
                      pagina = page_num + 1,
                      periodo_reporte = None,
                      horas_reporte = None,
                      tipo_sensor = None,
                      tiempo_carga_promedio = None \<rparr>))"

text \<open>One line of the context window: the first label found on the line sets its field.\<close>

definition enrich_line :: "extraction \<Rightarrow> string \<Rightarrow> extraction" where
  "enrich_line result l =
     (if py_in ''Report Time Span:'' l
      then result\<lparr>periodo_reporte := Some (strip (py_split l ''Report Time Span:'' ! 1))\<rparr>
      else if py_in ''Report Hours:'' l
      then result\<lparr>horas_reporte := Some (strip (py_split l ''Report Hours:'' ! 1))\<rparr>
      else if py_in ''Sensor Type:'' l
      then result\<lparr>tipo_sensor := Some (strip (py_split l ''Sensor Type:'' ! 1))\<rparr>
      else if py_in ''Average (Loading time):'' l \<or> py_in ''Average (Loading Time):'' l
      then result\<lparr>tiempo_carga_promedio := Some (strip (last (py_split l '':'')))\<rparr>
      else result)"

text \<open>
  The lines of \<open>range(i-5, min(i + 15, len(lines)))\<close> with a non-negative index, and
  the lines of \<open>range(max(0, i-10), min(i + 10, len(lines)))\<close>.
\<close>

definition context_single :: "string list \<Rightarrow> nat \<Rightarrow> string list" where
  "context_single lines i =
     map (\<lambda>k. lines ! nat k)
       (filter (\<lambda>k. 0 \<le> k) [int i - 5 .. int (min (i + 15) (length lines)) - 1])"

definition context_discovery :: "string list \<Rightarrow> nat \<Rightarrow> string list" where
  "context_discovery lines i =
     map (\<lambda>k. lines ! k) [nat (max 0 (int i - 10)) ..< min (i + 10) (length lines)]"

section \<open>Extraction for one target\<close>

text \<open>
  \<open>extract_uptime_stats\<close>.  The document is the list of its page texts.  The guard on
  a declaration line:
\<close>

definition guard :: "string \<Rightarrow> string \<Rightarrow> bool" where
  "guard target_url line =
     (\<not> py_in ''/tramites'' line \<and> \<not> py_in ''/educacion'' line
      \<and> endswith (strip line) target_url)"

text \<open>The body of the loop over \<open>j\<close>: it returns when line \<open>j\<close> is a statistics line that parses.\<close>

definition stats_attempt ::
  "string \<Rightarrow> string \<Rightarrow> nat \<Rightarrow> string list \<Rightarrow> nat \<Rightarrow> nat \<Rightarrow> extraction option" where
  "stats_attempt pdf_path target_url page_num lines i j =
     (if py_in stats_marker (lines ! j)
      then (case stats_record pdf_path target_url page_num (lines ! j) of
              None \<Rightarrow> None
            | Some result \<Rightarrow> Some (foldl enrich_line result (context_single lines i)))
      else None)"

text \<open>The body of the loop over the lines of a page.\<close>

definition line_attempt ::
  "string \<Rightarrow> string \<Rightarrow> nat \<Rightarrow> string list \<Rightarrow> nat \<times> string \<Rightarrow> extraction option" where
  "line_attempt pdf_path target_url page_num lines il =
     (case il of
        (i, line) \<Rightarrow>
          if py_in decl_marker line \<and> py_in target_url line
          then (if guard target_url line
                then first_some (stats_attempt pdf_path target_url page_num lines i)
                       [i ..< min (i + 10) (length lines)]
                else None)
          else None)"

text \<open>The body of the loop over the pages.\<close>

definition page_attempt :: "string \<Rightarrow> string \<Rightarrow> nat \<times> string \<Rightarrow> extraction option" where
  "page_attempt pdf_path target_url pt =
     (case pt of
        (page_num, text) \<Rightarrow>
          if py_in target_url text
          then (let lines = py_split text newline
                in first_some (line_attempt pdf_path target_url page_num lines)
                     (enumerate 0 lines))
          else None)"

definition extract_uptime_stats :: "string \<Rightarrow> string list \<Rightarrow> string \<Rightarrow> extraction option" where
  "extract_uptime_stats pdf_path pages target_url =
     first_some (page_attempt pdf_path target_url) (enumerate 0 pages)"

section \<open>Extraction of every known target\<close>

text \<open>
  \<open>extract_all_urls_from_pdf\<close>.  The chain of tests on a declaration line; when no
  test succeeds the variable keeps its value.
\<close>

definition classify :: "string \<Rightarrow> string option \<Rightarrow> string option" where
  "classify line current_url =
     (if py_in ''buenosaires.gob.ar'' line
      then (if py_in ''> https://buenosaires.gob.ar/'' line
            then Some ''https://buenosaires.gob.ar/''
            else if py_in ''buenosaires.gob.ar/tramites'' line
            then Some ''buenosaires.gob.ar/tramites''
            else if py_in ''buenosaires.gob.ar/educacion'' line
            then Some ''buenosaires.gob.ar/educacion''
            else if py_in ''nba-drupal.buenosaires.gob.ar'' line
            then Some ''nba-drupal.buenosaires.gob.ar''
            else if py_in ''ash.buenosaires.gob.ar'' line
            then Some ''ash.buenosaires.gob.ar/''
            else current_url)
      else current_url)"

text \<open>
  The state that lives for the whole document, and one step of the loop over the lines
  of a page; \<open>current_url\<close> is the state of the page.  (The variable
  \<open>current_probe_line\<close> of the source is written and never read.)
\<close>

record walk =
  results :: "extraction list"
  processed_urls :: "string set"

definition line_step ::
  "string \<Rightarrow> nat \<Rightarrow> string list \<Rightarrow> string option \<times> walk \<Rightarrow> nat \<times> string
   \<Rightarrow> string option \<times> walk" where
  "line_step pdf_path page_num lines state il =
     (case state of
        (current_url, w) \<Rightarrow>
          (case il of
             (i, line) \<Rightarrow>
               if py_in decl_marker line then (classify line current_url, w)
               else
                 (case current_url of
                    None \<Rightarrow> (current_url, w)
                  | Some u \<Rightarrow>
                      if py_in stats_marker line \<and> u \<noteq> [] \<and> u \<notin> processed_urls w
                      then
                        (case stats_record pdf_path u page_num line of
                           None \<Rightarrow> (current_url, w)
                         | Some result \<Rightarrow>
                             (current_url,
                              \<lparr> results = results w
                                   @ [foldl enrich_line result (context_discovery lines i)],
                                processed_urls = insert u (processed_urls w) \<rparr>))
                      else (current_url, w))))"

definition page_step :: "string \<Rightarrow> walk \<Rightarrow> nat \<times> string \<Rightarrow> walk" where
  "page_step pdf_path w pt =
     (case pt of
        (page_num, text) \<Rightarrow>
          (let lines = py_split text newline
           in snd (foldl (line_step pdf_path page_num lines) (None, w) (enumerate 0 lines))))"

definition extract_all_urls_from_pdf :: "string \<Rightarrow> string list \<Rightarrow> extraction list" where
  "extract_all_urls_from_pdf pdf_path pages =
     results (foldl (page_step pdf_path) \<lparr> results = [], processed_urls = {} \<rparr>
                (enumerate 0 pages))"

section \<open>Statistics over the two reports\<close>










section \<open>Example documents\<close>

text \<open>The synthetic one-page document of the specification, and the record it yields.\<close>

definition example_decl_line :: string where
  "example_decl_line = ''Probe, Group, Device: > https://example.org/''"

definition example_stats_line :: string where
  "example_stats_line =
     ''Uptime Stats: Up: 99.50 % [06d 23h 59m 41s] Down: 0.50 % [00d 00h 10m 00s]''"

definition example_page :: string where
  "example_page = example_decl_line @ newline @ example_stats_line"

definition example_record :: extraction where
  "example_record =
     \<lparr> archivo_pdf = ''report.pdf'',
       url = ''https://example.org/'',
       uptime_porcentaje = ''99.50'',
       uptime_unidad = ''%'',
       uptime_duracion = ''06d 23h 59m 41s'',
       downtime_porcentaje = ''0.50'',
       downtime_unidad = ''%'',
       downtime_duracion = ''00d 00h 10m 00s'',
       pagina = 1,
       periodo_reporte = None,
       horas_reporte = None,
       tipo_sensor = None,
       tiempo_carga_promedio = None \<rparr>"

text \<open>
  A page on which the two lines of the example come after an earlier declaration of the
  same target with a statistics line of its own.
\<close>

definition shadowed_page :: string where
  "shadowed_page = example_decl_line @ newline
     @ ''Uptime Stats: Up: 100 % [07d 00h 00m 00s] Down: 0 % [00s]'' @ newline
     @ example_page"

text \<open>A page that mentions the target of the example outside any declaration line.\<close>

definition mention_page :: string where
  "mention_page = ''Summary for https://example.org/ follows''"

text \<open>Two pages that declare the same known target, each with its own statistics line.\<close>

definition ash_decl_line :: string where
  "ash_decl_line = ''Probe, Group, Device: Local Probe > Web > ash.buenosaires.gob.ar''"

definition ash_page :: string where
  "ash_page = ash_decl_line @ newline @ ''Sensor Type: HTTP Advanced'' @ newline
     @ example_stats_line"

definition ash_page_again :: string where
  "ash_page_again = ash_decl_line @ newline
     @ ''Uptime Stats: Up: 100 % [07d 00h 00m 00s] Down: 0 % [00s]''"

definition ash_record :: extraction where
  "ash_record =
     example_record\<lparr> url := ''ash.buenosaires.gob.ar/'', tipo_sensor := Some ''HTTP Advanced'' \<rparr>"

section \<open>Occurrences of a target in a line\<close>

text \<open>
  What follows each occurrence of \<open>t\<close> in a line.  The target occurs only as a strict
  prefix of something longer when every occurrence is continued by a character that is
  not white space.  The last two definitions are a declaration line for a subpath of the
  main target and a page that holds it.
\<close>

fun after_occurrences :: "string \<Rightarrow> string \<Rightarrow> string list" where
  "after_occurrences t [] = (if t = [] then [[]] else [])"
| "after_occurrences t (c # cs) =
     (if prefix t (c # cs) then [drop (length t) (c # cs)] else []) @ after_occurrences t cs"

definition continued :: "string \<Rightarrow> bool" where
  "continued rest = (case rest of [] \<Rightarrow> False | c # _ \<Rightarrow> \<not> isspace c)"

definition tramites_decl_line :: string where
  "tramites_decl_line = ''Probe, Group, Device: > https://buenosaires.gob.ar/tramites''"

definition tramites_page :: string where
  "tramites_page = tramites_decl_line @ newline @ example_stats_line"

section \<open>Reports as the program writes them\<close>









section \<open>Recognized forms and further example pages\<close>



definition stats_first_page :: string where
  "stats_first_page = example_stats_line @ newline @ ash_decl_line"





section \<open>The invariant of the walk over a document\<close>

text \<open>The targets marked as processed are those of the records, and no target has two records.\<close>

definition recorded_once :: "walk \<Rightarrow> bool" where
  "recorded_once w =
     (processed_urls w = url ` set (results w) \<and> distinct (map url (results w)))"

section \<open>Long components\<close>

text \<open>A token whose day component has one digit more than \<open>int\<close> accepts.\<close>

definition long_days_token :: string where
  "long_days_token = replicate 4301 (CHR ''9'') @ ''d''"

section \<open>Basic facts\<close>

lemma py_in_sublist: "py_in sub s = sublist sub s"
  by (induction s) (simp_all add: sublist_Cons_right)

lemma py_in_trans: "py_in a b \<Longrightarrow> py_in b c \<Longrightarrow> py_in a c"
  unfolding py_in_sublist by (rule sublist_order.order.trans)

subsection \<open>The parts that the context fields read\<close>

text \<open>
  \<open>enrich_line\<close> reads part 1 of a split only on a line that contains the label, and the
  last part of a split; both exist.
\<close>

lemma split_from_nonempty: "split_from sep acc s \<noteq> []"
  by (induction sep acc s rule: split_from.induct) auto

lemma split_from_second:
  "sep \<noteq> [] \<Longrightarrow> sublist sep s \<Longrightarrow> 1 < length (split_from sep acc s)"
proof (induction sep acc s rule: split_from.induct)
  case (1 sep acc)
  then show ?case by simp
next
  case (2 sep acc c cs)
  show ?case
  proof (cases "prefix sep (c # cs)")
    case True
    have "split_from sep [] (drop (length sep - 1) cs) \<noteq> []" by (rule split_from_nonempty)
    then have "0 < length (split_from sep [] (drop (length sep - 1) cs))" by blast
    with True "2.prems"(1) show ?thesis by simp
  next
    case False
    with "2.prems"(2) have "sublist sep cs" by (simp add: sublist_Cons_right)
    with "2.IH"(2) False "2.prems"(1) have "1 < length (split_from sep (c # acc) cs)" by blast
    with False show ?thesis by simp
  qed
qed

lemma py_split_second: "sep \<noteq> [] \<Longrightarrow> py_in sep l \<Longrightarrow> 1 < length (py_split l sep)"
  using split_from_second[of sep l "[]"] by (simp add: py_split_def py_in_sublist)

lemma py_split_nonempty: "py_split l sep \<noteq> []"
  by (simp add: py_split_def split_from_nonempty)

subsection \<open>Searching for a duration component\<close>

lemma unit_letter_not_digit: "\<not> isdigit (unit_letter u)"
  by (cases u) (simp_all add: isdigit_def)

lemma match_unit_absent: "unit_letter u \<notin> set s \<Longrightarrow> match_unit u s = None"
proof -
  assume a: "unit_letter u \<notin> set s"
  have "set (dropWhile isdigit s) \<subseteq> set s" by (auto dest: set_dropWhileD)
  with a have "unit_letter u \<notin> set (dropWhile isdigit s)" by blast
  then show ?thesis
    by (auto simp: match_unit_def Let_def split: list.splits)
qed

lemma search_unit_absent: "unit_letter u \<notin> set s \<Longrightarrow> search_unit u s = None"
proof (induction s)
  case Nil
  then show ?case by simp
next
  case (Cons c cs)
  then have "match_unit u (c # cs) = None" by (intro match_unit_absent) simp
  with Cons show ?case by simp
qed

lemma trailing_digits_all: "list_all isdigit s \<Longrightarrow> trailing_digits s = s"
  by (simp add: trailing_digits_def list_all_iff takeWhile_eq_all_conv[THEN iffD2])

lemma trailing_digits_Cons:
  "\<not> list_all isdigit (c # cs) \<Longrightarrow> trailing_digits (c # cs) = trailing_digits cs"
  by (auto simp: trailing_digits_def takeWhile_append list_all_iff takeWhile_eq_all_conv[THEN iffD2])

lemma match_unit_digits:
  "list_all isdigit pre \<Longrightarrow> pre \<noteq> [] \<Longrightarrow> match_unit u (pre @ unit_letter u # post) = Some pre"
proof -
  assume a: "list_all isdigit pre" "pre \<noteq> []"
  then have "takeWhile isdigit (pre @ unit_letter u # post) = pre"
    by (simp add: list_all_iff takeWhile_append2 unit_letter_not_digit)
  moreover from a have "dropWhile isdigit (pre @ unit_letter u # post) = unit_letter u # post"
    by (simp add: list_all_iff dropWhile_append2 unit_letter_not_digit)
  ultimately show ?thesis using a by (simp add: match_unit_def)
qed

lemma match_unit_nondigit:
  assumes "\<not> list_all isdigit pre" "unit_letter u \<notin> set pre"
  shows "match_unit u (pre @ rest) = None"
proof -
  from assms(1) obtain x where x: "x \<in> set pre" "\<not> isdigit x" by (auto simp: list_all_iff)
  then have d: "dropWhile isdigit (pre @ rest) = dropWhile isdigit pre @ rest"
    by (intro dropWhile_append1) auto
  from x have ne: "dropWhile isdigit pre \<noteq> []" by (auto simp: dropWhile_eq_Nil_conv)
  then obtain y ys where y: "dropWhile isdigit pre = y # ys" by (cases "dropWhile isdigit pre") auto
  then have "y \<in> set pre" by (metis list.set_intros(1) set_dropWhileD)
  with assms(2) have "y \<noteq> unit_letter u" by auto
  with d y show ?thesis by (simp add: match_unit_def Let_def)
qed

lemma search_unit_split:
  "unit_letter u \<notin> set pre \<Longrightarrow>
   search_unit u (pre @ unit_letter u # post) =
     (if trailing_digits pre = [] then search_unit u post else Some (trailing_digits pre))"
proof (induction pre)
  case Nil
  have "match_unit u (unit_letter u # post) = None"
    by (simp add: match_unit_def unit_letter_not_digit)
  then show ?case by (simp add: trailing_digits_def)
next
  case (Cons c cs)
  show ?case
  proof (cases "list_all isdigit (c # cs)")
    case True
    then have "match_unit u ((c # cs) @ unit_letter u # post) = Some (c # cs)"
      by (intro match_unit_digits) simp_all
    with True show ?thesis by (simp add: trailing_digits_all)
  next
    case False
    with Cons.prems have "match_unit u ((c # cs) @ unit_letter u # post) = None"
      by (intro match_unit_nondigit) 
    with False Cons show ?thesis by (simp add: trailing_digits_Cons)
  qed
qed

subsection \<open>Decimal text and \<open>int\<close>\<close>

lemma digit_not_int_space: "isdigit c \<Longrightarrow> \<not> int_space c"
  by (auto simp: isdigit_def int_space_def)

lemma decimal_snoc: "decimal (ds @ [c]) = 10 * decimal ds + digit_value c"
  by (simp add: decimal_def)

lemma below_ten: "(n::nat) < 10 \<Longrightarrow> n \<in> {0, 1, 2, 3, 4, 5, 6, 7, 8, 9}"
  by auto

lemma digit_char_props:
  assumes "n < 10"
  shows "isdigit (digit_char n)" and "digit_value (digit_char n) = int n"
  using below_ten[OF assms] by (auto simp: digit_char_def isdigit_def digit_value_def)

lemma str_nat_digits: "list_all isdigit (str_nat n) \<and> str_nat n \<noteq> []"
proof (induction n rule: str_nat.induct)
  case (1 n)
  show ?case
  proof (cases "n < 10")
    case True
    then show ?thesis by (simp add: str_nat.simps[of n] digit_char_props)
  next
    case False
    with 1 show ?thesis by (simp add: str_nat.simps[of n] digit_char_props)
  qed
qed

lemma decimal_str_nat: "decimal (str_nat n) = int n"
proof (induction n rule: str_nat.induct)
  case (1 n)
  show ?case
  proof (cases "n < 10")
    case True
    then show ?thesis by (simp add: str_nat.simps[of n] decimal_def digit_char_props)
  next
    case False
    with 1 have "decimal (str_nat (n div 10)) = int (n div 10)" by simp
    with False show ?thesis
      by (simp add: str_nat.simps[of n] decimal_snoc digit_char_props zdiv_int zmod_int)
  qed
qed

lemma length_str_nat_le: "0 < k \<Longrightarrow> n < 10 ^ k \<Longrightarrow> length (str_nat n) \<le> k"
proof (induction n arbitrary: k rule: str_nat.induct)
  case (1 n)
  show ?case
  proof (cases "n < 10")
    case True
    with "1.prems" show ?thesis by (simp add: str_nat.simps[of n])
  next
    case False
    with "1.prems" obtain j where k: "k = Suc j" by (cases k) auto
    with False "1.prems" have j: "0 < j" by (cases j) auto
    from "1.prems" k have "n div 10 < 10 ^ j"
      by (simp add: less_mult_imp_div_less mult.commute)
    with "1.IH"[OF False j] have "length (str_nat (n div 10)) \<le> j" by simp
    with False k show ?thesis by (simp add: str_nat.simps[of n])
  qed
qed

lemma length_str_nat_gt: "10 ^ k \<le> n \<Longrightarrow> k < length (str_nat n)"
proof (induction n arbitrary: k rule: str_nat.induct)
  case (1 n)
  show ?case
  proof (cases "n < 10")
    case True
    have "k = 0"
    proof (rule ccontr)
      assume "k \<noteq> 0"
      then obtain j where "k = Suc j" by (cases k) auto
      moreover have "(1::nat) \<le> 10 ^ j" by simp
      ultimately have "(10::nat) \<le> 10 ^ k" by simp
      with "1.prems" True show False by simp
    qed
    with True show ?thesis by (simp add: str_nat.simps[of n])
  next
    case False
    show ?thesis
    proof (cases k)
      case 0
      with False show ?thesis by (simp add: str_nat.simps[of n])
    next
      case (Suc j)
      with "1.prems" have "10 ^ j \<le> n div 10"
        by (simp add: less_eq_div_iff_mult_less_eq mult.commute)
      with "1.IH"[OF False] have "j < length (str_nat (n div 10))" by simp
      with False Suc show ?thesis by (simp add: str_nat.simps[of n])
    qed
  qed
qed

lemma decimal_nonneg: "list_all isdigit ds \<Longrightarrow> 0 \<le> decimal ds"
proof (induction ds rule: rev_induct)
  case Nil
  then show ?case by (simp add: decimal_def)
next
  case (snoc c ds)
  then have "0 \<le> digit_value c" by (auto simp: isdigit_def digit_value_def)
  with snoc show ?case by (simp add: decimal_snoc)
qed

lemma int_strip_no_space_ends:
  assumes "s \<noteq> []" "\<not> int_space (hd s)" "\<not> int_space (last s)"
  shows "int_strip s = s"
proof -
  from assms have "dropWhile int_space s = s" by (simp add: dropWhile_eq_self_iff)
  moreover from assms have "dropWhile int_space (rev s) = rev s"
    by (simp add: dropWhile_eq_self_iff hd_rev)
  ultimately show ?thesis by (simp add: int_strip_def)
qed

lemma digits_tail_digits: "list_all isdigit s \<Longrightarrow> digits_tail s"
  by (induction s) (auto simp: isdigit_def)

lemma py_int_digits:
  assumes "s \<noteq> []" "list_all isdigit s"
  shows "py_int s = (if length s \<le> max_str_digits then Inr (decimal s) else Inl ValueError)"
proof -
  from assms have h: "isdigit (hd s)" and l: "isdigit (last s)"
    by (auto simp: list_all_iff)
  with assms have st: "int_strip s = s"
    by (intro int_strip_no_space_ends) (auto dest: digit_not_int_space)
  from h have sign: "hd s \<noteq> CHR ''-''" "hd s \<noteq> CHR ''+''" by (auto simp: isdigit_def)
  from assms have ok: "int_body_ok s"
    by (cases s) (simp_all add: int_body_ok_def digits_tail_digits)
  from assms have f: "filter isdigit s = s" by (simp add: list_all_iff)
  show ?thesis using st sign ok f by (simp add: py_int_def Let_def)
qed


lemma match_unit_Some:
  assumes "match_unit u s = Some g"
  shows "g \<noteq> [] \<and> list_all isdigit g \<and> (\<exists>post. s = g @ unit_letter u # post)"
proof -
  from assms have g: "g = takeWhile isdigit s" "g \<noteq> []"
    by (auto simp: match_unit_def Let_def split: if_splits list.splits)
  from assms obtain post where "dropWhile isdigit s = unit_letter u # post"
    by (auto simp: match_unit_def Let_def split: if_splits list.splits)
  then have "s = g @ unit_letter u # post" using g(1)
    by (metis takeWhile_dropWhile_id)
  moreover have "list_all isdigit g" using g(1) by (auto simp: list_all_iff dest: set_takeWhileD)
  ultimately show ?thesis using g(2) by blast
qed

lemma search_unit_Some:
  "search_unit u s = Some g \<Longrightarrow>
   g \<noteq> [] \<and> list_all isdigit g \<and> (\<exists>pre post. s = pre @ g @ unit_letter u # post)"
proof (induction s)
  case Nil
  then show ?case by simp
next
  case (Cons c cs)
  show ?case
  proof (cases "match_unit u (c # cs)")
    case None
    with Cons obtain pre post where "g \<noteq> []" "list_all isdigit g" "cs = pre @ g @ unit_letter u # post"
      by auto
    then have "c # cs = (c # pre) @ g @ unit_letter u # post" by simp
    with \<open>g \<noteq> []\<close> \<open>list_all isdigit g\<close> show ?thesis by blast
  next
    case (Some g')
    with Cons.prems have "g' = g" by simp
    with Some match_unit_Some[of u "c # cs" g] show ?thesis
      by (metis append_Nil)
  qed
qed

lemma add_unit_Inr:
  "add_unit s (Inr t) u =
     (if group_fits u s then Inr (t + found_value u s * unit_weight u) else Inl ValueError)"
proof (cases "search_unit u s")
  case None
  then show ?thesis by (simp add: add_unit_def found_value_def group_fits_def)
next
  case (Some g)
  with search_unit_Some have "g \<noteq> []" "list_all isdigit g" by blast+
  then have "py_int g = (if length g \<le> max_str_digits then Inr (decimal g) else Inl ValueError)"
    by (rule py_int_digits)
  with Some show ?thesis by (simp add: add_unit_def found_value_def group_fits_def)
qed

lemma add_unit_Inl: "add_unit s (Inl e) u = Inl e"
  by (simp add: add_unit_def)

lemma found_value_nonneg: "0 \<le> found_value u s"
proof (cases "search_unit u s")
  case None
  then show ?thesis by (simp add: found_value_def)
next
  case (Some g)
  with search_unit_Some have "list_all isdigit g" by blast
  with Some show ?thesis by (simp add: found_value_def decimal_nonneg)
qed

lemma duration_to_seconds_found:
  assumes "list_all (\<lambda>u. group_fits u s) patterns"
  shows "duration_to_seconds (Some s) =
     Inr (found_value Days s * 86400 + found_value Hours s * 3600
          + found_value Minutes s * 60 + found_value Seconds s)"
proof (cases "s = []")
  case True
  then show ?thesis by (simp add: duration_to_seconds_def found_value_def)
next
  case False
  with assms show ?thesis
    by (simp add: duration_to_seconds_def patterns_def add_unit_Inr)
qed

lemma duration_to_seconds_fails:
  assumes "\<not> list_all (\<lambda>u. group_fits u s) patterns"
  shows "duration_to_seconds (Some s) = Inl ValueError"
proof -
  have "s \<noteq> []" using assms by (auto simp: patterns_def group_fits_def)
  with assms show ?thesis
    by (auto simp: duration_to_seconds_def patterns_def add_unit_Inr add_unit_Inl)
qed

section \<open>Decoding of duration tokens\<close>

lemma unit_letter_not_in_digits: "list_all isdigit D \<Longrightarrow> unit_letter u \<notin> set D"
  using unit_letter_not_digit by (auto simp: list_all_iff)

lemma trailing_digits_append:
  assumes "xs = [] \<or> \<not> isdigit (last xs)" "list_all isdigit D"
  shows "trailing_digits (xs @ D) = D"
proof (cases "xs = []")
  case True
  with assms show ?thesis by (simp add: trailing_digits_all)
next
  case False
  with assms(1) have "\<not> isdigit (last xs)" by simp
  with False have "takeWhile isdigit (rev xs) = []"
    by (cases "rev xs") (auto simp: last_rev[symmetric] hd_rev)
  with assms(2) show ?thesis
    by (simp add: trailing_digits_def takeWhile_append list_all_iff)
qed

lemma search_unit_at:
  assumes "unit_letter u \<notin> set xs" "xs = [] \<or> \<not> isdigit (last xs)"
    and "list_all isdigit D" "D \<noteq> []"
  shows "search_unit u (xs @ D @ unit_letter u # post) = Some D"
proof -
  from assms have "unit_letter u \<notin> set (xs @ D)"
    by (simp add: unit_letter_not_in_digits)
  then have "search_unit u ((xs @ D) @ unit_letter u # post) =
      (if trailing_digits (xs @ D) = [] then search_unit u post
       else Some (trailing_digits (xs @ D)))"
    by (rule search_unit_split)
  with assms show ?thesis
    by (simp add: trailing_digits_append)
qed

lemma found_value_at:
  assumes "unit_letter u \<notin> set xs" "xs = [] \<or> \<not> isdigit (last xs)"
    and "list_all isdigit D" "D \<noteq> []"
  shows "found_value u (xs @ D @ unit_letter u # post) = decimal D"
  using search_unit_at[OF assms] by (simp add: found_value_def)

lemma group_fits_at:
  assumes "unit_letter u \<notin> set xs" "xs = [] \<or> \<not> isdigit (last xs)"
    and "list_all isdigit D" "D \<noteq> []"
  shows "group_fits u (xs @ D @ unit_letter u # post) \<longleftrightarrow> length D \<le> max_str_digits"
  using search_unit_at[OF assms] by (simp add: group_fits_def)

lemma search_unit_component:
  assumes "count_list tok (unit_letter u) \<le> 1"
  shows "search_unit u tok =
     (if component_digits u tok = [] then None else Some (component_digits u tok))"
proof (cases "unit_letter u \<in> set tok")
  case False
  then show ?thesis
    by (simp add: component_digits_def search_unit_absent)
next
  case True
  then obtain pre post where tok: "tok = pre @ unit_letter u # post"
    and pre: "unit_letter u \<notin> set pre"
    by (auto dest: split_list_first)
  with assms have "count_list post (unit_letter u) = 0" by simp
  then have post: "unit_letter u \<notin> set post" by (simp add: count_list_0_iff)
  have tw: "takeWhile (\<lambda>c. c \<noteq> unit_letter u) tok = pre"
    using tok pre by (simp add: takeWhile_append)
  have "search_unit u tok =
      (if trailing_digits pre = [] then search_unit u post else Some (trailing_digits pre))"
    unfolding tok using pre by (rule search_unit_split)
  with post tw True show ?thesis
    by (simp add: component_digits_def search_unit_absent)
qed

lemma found_value_component:
  "count_list tok (unit_letter u) \<le> 1 \<Longrightarrow> found_value u tok = component_value u tok"
  by (simp add: found_value_def component_value_def component_def search_unit_component Let_def)

lemma group_fits_component:
  "count_list tok (unit_letter u) \<le> 1 \<Longrightarrow>
   group_fits u tok \<longleftrightarrow> length (component_digits u tok) \<le> max_str_digits"
  by (simp add: group_fits_def search_unit_component)

lemma recognizable_mid:
  "isdigit c \<Longrightarrow> recognizable (pre @ c # unit_letter u # post)"
proof (induction pre)
  case Nil
  then show ?case by (cases u) simp_all
next
  case (Cons a pre)
  then show ?case by (cases "pre @ c # unit_letter u # post") auto
qed

lemma search_unit_recognizable:
  assumes "search_unit u t = Some g"
  shows "recognizable t"
proof -
  from search_unit_Some[OF assms] obtain pre post where
    g: "g \<noteq> []" "list_all isdigit g" and t: "t = pre @ g @ unit_letter u # post"
    by blast
  from g have "isdigit (last g)" by (auto simp: list_all_iff)
  moreover from g(1) have "t = (pre @ butlast g) @ last g # unit_letter u # post"
    using t by (metis append.assoc append_Cons append_Nil append_butlast_last_id)
  ultimately show ?thesis using recognizable_mid by metis
qed

lemma search_unit_unrecognizable: "\<not> recognizable t \<Longrightarrow> search_unit u t = None"
  using search_unit_recognizable by (cases "search_unit u t") auto

lemma digit_run_le:
  "list_all isdigit g \<Longrightarrow> length g \<le> longest_digit_run (pre @ g @ post)"
proof (induction pre)
  case Nil
  show ?case
  proof (cases "g @ post")
    case Nil
    then show ?thesis by simp
  next
    case (Cons c cs)
    from Nil.prems have "takeWhile isdigit (g @ post) = g @ takeWhile isdigit post"
      by (simp add: takeWhile_append2 list_all_iff)
    then have "length g \<le> length (takeWhile isdigit (c # cs))" unfolding Cons by simp
    then have "length g \<le> longest_digit_run (c # cs)" by simp
    then show ?thesis using Cons by simp
  qed
next
  case (Cons a pre)
  then have "length g \<le> longest_digit_run (pre @ g @ post)" by simp
  then show ?case by simp
qed

lemma group_fits_run: "longest_digit_run s \<le> max_str_digits \<Longrightarrow> group_fits u s"
proof (cases "search_unit u s")
  case None
  then show ?thesis by (simp add: group_fits_def)
next
  case (Some g)
  assume a: "longest_digit_run s \<le> max_str_digits"
  from search_unit_Some[OF Some] obtain pre post where
    "list_all isdigit g" "s = pre @ g @ unit_letter u # post" by blast
  then have "length g \<le> longest_digit_run s" using digit_run_le by blast
  with a Some show ?thesis by (simp add: group_fits_def)
qed

lemma single_component:
  assumes "list_all isdigit D" "D \<noteq> []"
  shows "search_unit u' (D @ [unit_letter u]) = (if u' = u then Some D else None)"
proof (cases "u' = u")
  case True
  with search_unit_at[of u "[]" D "[]"] assms show ?thesis by simp
next
  case False
  then have "unit_letter u' \<noteq> unit_letter u" by (cases u; cases u') simp_all
  with assms have "unit_letter u' \<notin> set (D @ [unit_letter u])"
    by (simp add: unit_letter_not_in_digits)
  with False show ?thesis by (simp add: search_unit_absent)
qed

lemma nines_are_digits: "list_all isdigit (replicate k (CHR ''9''))"
  by (simp add: list_all_iff isdigit_def)

lemma long_days_token_search:
  "search_unit Days long_days_token = Some (replicate 4301 (CHR ''9''))"
  unfolding long_days_token_def
  using single_component[of "replicate 4301 (CHR ''9'')" Days Days] nines_are_digits[of 4301]
  by simp

lemma long_days_token_fails: "duration_to_seconds (Some long_days_token) = Inl ValueError"
proof -
  have "\<not> group_fits Days long_days_token"
    by (simp add: group_fits_def long_days_token_search max_str_digits_def)
  then have "\<not> list_all (\<lambda>u. group_fits u long_days_token) patterns"
    by (simp add: patterns_def)
  then show ?thesis by (rule duration_to_seconds_fails)
qed

lemma long_days_token_letters:
  "list_all (\<lambda>u. count_list long_days_token (unit_letter u) \<le> 1) patterns"
proof -
  have "count_list (replicate k (CHR ''9'')) c = 0" if "c \<noteq> CHR ''9''" for k c
    using that by (induction k) simp_all
  then show ?thesis by (simp add: patterns_def long_days_token_def)
qed

text \<open>
  A token whose only component has 4301 digits, with each unit letter at most once: the
  conversion of the component fails and \<open>duration_to_seconds\<close> raises.
\<close>

theorem long_component_raises:
  "list_all (\<lambda>u. count_list long_days_token (unit_letter u) \<le> 1) patterns
   \<and> duration_to_seconds (Some long_days_token) = Inl ValueError"
  using long_days_token_letters long_days_token_fails by simp

text \<open>
  Claim C7, amended.  For a token in which each of the unit letters d, h, m, s occurs at
  most once and no component has more than 4300 digits, \<open>duration_to_seconds\<close> returns
  days * 86400 + hours * 3600 + minutes * 60 + seconds, where each component is the
  integer standing immediately before its unit letter and an absent component counts as
  zero; when a component has more than 4300 digits the function raises \<open>ValueError\<close>.
  The absent token and the empty token decode to 0; a component of up to 4300 digits is
  accepted for every unit; for every token without a run of more than 4300 digits the
  function returns a non-negative integer; and a token without any recognizable
  component decodes to 0.
\<close>

theorem duration_to_seconds_decodes:
  "((\<forall>u \<in> set patterns. count_list tok (unit_letter u) \<le> 1
                        \<and> length (component_digits u tok) \<le> max_str_digits) \<longrightarrow>
      duration_to_seconds (Some tok) =
        Inr (component_value Days tok * 86400 + component_value Hours tok * 3600
             + component_value Minutes tok * 60 + component_value Seconds tok))
   \<and> ((\<forall>u \<in> set patterns. count_list tok' (unit_letter u) \<le> 1)
       \<and> (\<exists>u \<in> set patterns. max_str_digits < length (component_digits u tok')) \<longrightarrow>
        duration_to_seconds (Some tok') = Inl ValueError)
   \<and> duration_to_seconds None = Inr 0
   \<and> duration_to_seconds (Some []) = Inr 0
   \<and> (length (decimal_text (int n)) \<le> max_str_digits \<longrightarrow>
        duration_to_seconds (Some (decimal_text (int n) @ [unit_letter u]))
          = Inr (int n * unit_weight u))
   \<and> (longest_digit_run s \<le> max_str_digits \<longrightarrow>
        (\<exists>v. duration_to_seconds (Some s) = Inr v \<and> 0 \<le> v))
   \<and> (\<not> recognizable t \<longrightarrow> duration_to_seconds (Some t) = Inr 0)"
proof (intro conjI impI)
  assume h: "\<forall>u \<in> set patterns. count_list tok (unit_letter u) \<le> 1
                        \<and> length (component_digits u tok) \<le> max_str_digits"
  have all: "u \<in> set patterns" for u by (cases u) (simp_all add: patterns_def)
  from h all have v: "found_value u tok = component_value u tok" for u
    by (simp add: found_value_component)
  from h all have "group_fits u tok" for u
    by (simp add: group_fits_component)
  then have "list_all (\<lambda>u. group_fits u tok) patterns" by (simp add: list_all_iff)
  then show "duration_to_seconds (Some tok) =
        Inr (component_value Days tok * 86400 + component_value Hours tok * 3600
             + component_value Minutes tok * 60 + component_value Seconds tok)"
    by (simp add: duration_to_seconds_found v)
next
  assume h: "(\<forall>u \<in> set patterns. count_list tok' (unit_letter u) \<le> 1)
       \<and> (\<exists>u \<in> set patterns. max_str_digits < length (component_digits u tok'))"
  then obtain u where u: "u \<in> set patterns" "max_str_digits < length (component_digits u tok')"
    by blast
  with h have "\<not> group_fits u tok'" by (simp add: group_fits_component)
  with u(1) have "\<not> list_all (\<lambda>u. group_fits u tok') patterns" by (auto simp: list_all_iff)
  then show "duration_to_seconds (Some tok') = Inl ValueError"
    by (rule duration_to_seconds_fails)
next
  show "duration_to_seconds None = Inr 0" by (simp add: duration_to_seconds_def)
next
  show "duration_to_seconds (Some []) = Inr 0" by (simp add: duration_to_seconds_def)
next
  assume h: "length (decimal_text (int n)) \<le> max_str_digits"
  have d: "list_all isdigit (str_nat n)" "str_nat n \<noteq> []" using str_nat_digits by auto
  then have s: "search_unit u' (str_nat n @ [unit_letter u]) = (if u' = u then Some (str_nat n) else None)" for u'
    by (rule single_component)
  from h have "length (str_nat n) \<le> max_str_digits" by (simp add: decimal_text_def)
  with s have "group_fits u' (str_nat n @ [unit_letter u])" for u'
    by (simp add: group_fits_def)
  then have "list_all (\<lambda>u'. group_fits u' (str_nat n @ [unit_letter u])) patterns"
    by (simp add: list_all_iff)
  moreover have "found_value u' (str_nat n @ [unit_letter u]) = (if u' = u then int n else 0)" for u'
    by (simp add: found_value_def s decimal_str_nat)
  ultimately show "duration_to_seconds (Some (decimal_text (int n) @ [unit_letter u]))
          = Inr (int n * unit_weight u)"
    by (cases u) (simp_all add: duration_to_seconds_found decimal_text_def)
next
  assume "longest_digit_run s \<le> max_str_digits"
  then have "list_all (\<lambda>u. group_fits u s) patterns"
    by (simp add: list_all_iff group_fits_run)
  moreover have "0 \<le> found_value Days s * 86400 + found_value Hours s * 3600
          + found_value Minutes s * 60 + found_value Seconds s"
    using found_value_nonneg[of Days s] found_value_nonneg[of Hours s]
      found_value_nonneg[of Minutes s] found_value_nonneg[of Seconds s] by simp
  ultimately show "\<exists>v. duration_to_seconds (Some s) = Inr v \<and> 0 \<le> v"
    by (simp add: duration_to_seconds_found)
next
  assume "\<not> recognizable t"
  then have n: "search_unit u t = None" for u by (rule search_unit_unrecognizable)
  then have "list_all (\<lambda>u. group_fits u t) patterns"
    by (simp add: list_all_iff group_fits_def)
  then show "duration_to_seconds (Some t) = Inr 0"
    by (simp add: duration_to_seconds_found found_value_def n)
qed

theorem duration_to_seconds_decodes_witness:
  "list_all (\<lambda>u. count_list ''06d 23h 59m 41s'' (unit_letter u) \<le> 1
                 \<and> length (component_digits u ''06d 23h 59m 41s'') \<le> max_str_digits) patterns
   \<and> duration_to_seconds (Some ''06d 23h 59m 41s'') = Inr 604781
   \<and> duration_to_seconds (Some long_days_token) = Inl ValueError
   \<and> duration_to_seconds (Some ''1234567d'') = Inr (1234567 * 86400)
   \<and> longest_digit_run ''1d 1d'' \<le> max_str_digits
   \<and> duration_to_seconds (Some ''1d 1d'') = Inr 86400
   \<and> \<not> recognizable ''n/a 7 d''
   \<and> duration_to_seconds (Some ''n/a 7 d'') = Inr 0"
proof -
  have a: "list_all (\<lambda>u. count_list ''06d 23h 59m 41s'' (unit_letter u) \<le> 1
                 \<and> length (component_digits u ''06d 23h 59m 41s'') \<le> max_str_digits) patterns"
    by (simp add: patterns_def component_digits_def trailing_digits_def isdigit_def
        max_str_digits_def)
  have b: "list_all (\<lambda>u. count_list long_days_token (unit_letter u) \<le> 1) patterns"
    by (rule long_days_token_letters)
  have "component_digits Days long_days_token = replicate 4301 (CHR ''9'')"
    using long_days_token_search search_unit_component[of long_days_token Days] b
    by (simp add: patterns_def split: if_splits)
  then have c: "\<exists>u \<in> set patterns. max_str_digits < length (component_digits u long_days_token)"
    by (auto simp: patterns_def max_str_digits_def)
  have d: "length (decimal_text (int 1234567)) \<le> max_str_digits"
    by (simp add: decimal_text_def str_nat.simps max_str_digits_def)
  have e: "decimal_text (int 1234567) @ [unit_letter Days] = ''1234567d''"
    by (simp add: decimal_text_def str_nat.simps digit_char_def)
  have f: "longest_digit_run ''1d 1d'' \<le> max_str_digits"
    by (simp add: isdigit_def max_str_digits_def)
  have g: "\<not> recognizable ''n/a 7 d''"
    by (simp add: isdigit_def)
  have v: "component_value Days ''06d 23h 59m 41s'' * 86400
           + component_value Hours ''06d 23h 59m 41s'' * 3600
           + component_value Minutes ''06d 23h 59m 41s'' * 60
           + component_value Seconds ''06d 23h 59m 41s'' = 604781"
    by (simp add: component_value_def component_def component_digits_def trailing_digits_def
        isdigit_def decimal_def digit_value_def)
  have w: "duration_to_seconds (Some ''1d 1d'') = Inr 86400"
    by code_simp
  show ?thesis
    using a b c d e f g v w
      duration_to_seconds_decodes[of "''06d 23h 59m 41s''" long_days_token 1234567 Days
        "''1d 1d''" "''n/a 7 d''"]
    by (simp add: list_all_iff)
qed

section \<open>Round trip through the breakdown\<close>

lemma last_not_digit:
  "list_all (\<lambda>c. \<not> isdigit c \<and> c \<notin> set ''dhms'') sep \<Longrightarrow> \<not> isdigit c \<Longrightarrow>
   \<not> isdigit (last (xs @ c # sep))"
  by (cases "sep = []") (auto simp: list_all_iff)

lemma breakdown_recompose:
  "(s::int) div 86400 * 86400 + (s mod 86400) div 3600 * 3600 + (s mod 3600) div 60 * 60 + s mod 60 = s"
proof -
  have a: "s mod 3600 = (s mod 86400) mod 3600" by (simp add: mod_mod_cancel)
  have b: "s mod 60 = (s mod 3600) mod 60" by (simp add: mod_mod_cancel)
  have "(s mod 3600) div 60 * 60 + s mod 60 = s mod 3600"
    unfolding b by simp
  moreover have "(s mod 86400) div 3600 * 3600 + s mod 3600 = s mod 86400"
    unfolding a by simp
  moreover have "s div 86400 * 86400 + s mod 86400 = s" by simp
  ultimately show ?thesis by linarith
qed

lemma token_searches:
  assumes sep: "list_all (\<lambda>c. \<not> isdigit c \<and> c \<notin> set ''dhms'') sep"
    and D: "list_all isdigit D" "D \<noteq> []" and H: "list_all isdigit H" "H \<noteq> []"
    and M: "list_all isdigit M" "M \<noteq> []" and S: "list_all isdigit S" "S \<noteq> []"
  shows "search_unit Days (D @ ''d'' @ sep @ H @ ''h'' @ sep @ M @ ''m'' @ sep @ S @ ''s'') = Some D"
    and "search_unit Hours (D @ ''d'' @ sep @ H @ ''h'' @ sep @ M @ ''m'' @ sep @ S @ ''s'') = Some H"
    and "search_unit Minutes (D @ ''d'' @ sep @ H @ ''h'' @ sep @ M @ ''m'' @ sep @ S @ ''s'') = Some M"
    and "search_unit Seconds (D @ ''d'' @ sep @ H @ ''h'' @ sep @ M @ ''m'' @ sep @ S @ ''s'') = Some S"
proof -
  let ?tok = "D @ ''d'' @ sep @ H @ ''h'' @ sep @ M @ ''m'' @ sep @ S @ ''s''"
  have nosep: "unit_letter u \<notin> set sep" for u
    using sep by (cases u) (auto simp: list_all_iff)
  have nodig: "unit_letter u \<notin> set X" if "list_all isdigit X" for u X
    using that by (rule unit_letter_not_in_digits)
  show "search_unit Days ?tok = Some D"
    using search_unit_at[of Days "[]" D "sep @ H @ ''h'' @ sep @ M @ ''m'' @ sep @ S @ ''s''"] D
    by simp
  have "unit_letter Hours \<notin> set (D @ ''d'' @ sep)"
    using nodig[OF D(1), of Hours] nosep[of Hours] by simp
  moreover have "\<not> isdigit (last (D @ ''d'' @ sep))"
    using last_not_digit[OF sep, of "CHR ''d''" D] by (simp add: isdigit_def)
  ultimately show "search_unit Hours ?tok = Some H"
    using search_unit_at[of Hours "D @ ''d'' @ sep" H "sep @ M @ ''m'' @ sep @ S @ ''s''"] H
    by simp
  have "unit_letter Minutes \<notin> set (D @ ''d'' @ sep @ H @ ''h'' @ sep)"
    using nodig[OF D(1), of Minutes] nodig[OF H(1), of Minutes] nosep[of Minutes] by simp
  moreover have "\<not> isdigit (last (D @ ''d'' @ sep @ H @ ''h'' @ sep))"
    using last_not_digit[OF sep, of "CHR ''h''" "D @ ''d'' @ sep @ H"] by (simp add: isdigit_def)
  ultimately show "search_unit Minutes ?tok = Some M"
    using search_unit_at[of Minutes "D @ ''d'' @ sep @ H @ ''h'' @ sep" M "sep @ S @ ''s''"] M
    by simp
  have "unit_letter Seconds \<notin> set (D @ ''d'' @ sep @ H @ ''h'' @ sep @ M @ ''m'' @ sep)"
    using nodig[OF D(1), of Seconds] nodig[OF H(1), of Seconds] nodig[OF M(1), of Seconds]
      nosep[of Seconds] by simp
  moreover have "\<not> isdigit (last (D @ ''d'' @ sep @ H @ ''h'' @ sep @ M @ ''m'' @ sep))"
    using last_not_digit[OF sep, of "CHR ''m''" "D @ ''d'' @ sep @ H @ ''h'' @ sep @ M"]
    by (simp add: isdigit_def)
  ultimately show "search_unit Seconds ?tok = Some S"
    using search_unit_at[of Seconds "D @ ''d'' @ sep @ H @ ''h'' @ sep @ M @ ''m'' @ sep" S "[]"] S
    by simp
qed

lemma token_decodes:
  assumes sep: "list_all (\<lambda>c. \<not> isdigit c \<and> c \<notin> set ''dhms'') sep"
    and D: "list_all isdigit D" "D \<noteq> []" and H: "list_all isdigit H" "H \<noteq> []"
    and M: "list_all isdigit M" "M \<noteq> []" and S: "list_all isdigit S" "S \<noteq> []"
    and short: "length D \<le> max_str_digits" "length H \<le> max_str_digits"
      "length M \<le> max_str_digits" "length S \<le> max_str_digits"
  shows "duration_to_seconds
           (Some (D @ ''d'' @ sep @ H @ ''h'' @ sep @ M @ ''m'' @ sep @ S @ ''s'')) =
         Inr (decimal D * 86400 + decimal H * 3600 + decimal M * 60 + decimal S)"
proof -
  let ?tok = "D @ ''d'' @ sep @ H @ ''h'' @ sep @ M @ ''m'' @ sep @ S @ ''s''"
  note found = token_searches[OF sep D H M S]
  have "list_all (\<lambda>u. group_fits u ?tok) patterns"
    using short found by (simp add: patterns_def group_fits_def)
  then have "duration_to_seconds (Some ?tok) =
     Inr (found_value Days ?tok * 86400 + found_value Hours ?tok * 3600
          + found_value Minutes ?tok * 60 + found_value Seconds ?tok)"
    by (rule duration_to_seconds_found)
  then show ?thesis using found by (simp add: found_value_def)
qed

lemma token_fails:
  assumes sep: "list_all (\<lambda>c. \<not> isdigit c \<and> c \<notin> set ''dhms'') sep"
    and D: "list_all isdigit D" "D \<noteq> []" and H: "list_all isdigit H" "H \<noteq> []"
    and M: "list_all isdigit M" "M \<noteq> []" and S: "list_all isdigit S" "S \<noteq> []"
    and long: "max_str_digits < length D"
  shows "duration_to_seconds
           (Some (D @ ''d'' @ sep @ H @ ''h'' @ sep @ M @ ''m'' @ sep @ S @ ''s'')) =
         Inl ValueError"
proof -
  let ?tok = "D @ ''d'' @ sep @ H @ ''h'' @ sep @ M @ ''m'' @ sep @ S @ ''s''"
  note found = token_searches[OF sep D H M S]
  have "\<not> list_all (\<lambda>u. group_fits u ?tok) patterns"
    using long found(1) by (simp add: patterns_def group_fits_def)
  then show ?thesis by (rule duration_to_seconds_fails)
qed

lemma breakdown_nonneg:
  assumes "0 \<le> (s::int)"
  shows "0 \<le> s div 86400" "0 \<le> (s mod 86400) div 3600"
    "0 \<le> (s mod 3600) div 60" "0 \<le> s mod 60"
  using assms by (simp_all add: pos_imp_zdiv_nonneg_iff)

lemma decimal_text_nonneg: "0 \<le> x \<Longrightarrow> decimal_text x = str_nat (nat x)"
  by (simp add: decimal_text_def)

lemma breakdown_token_nonneg:
  assumes "0 \<le> s"
  shows "breakdown_token sep s =
      str_nat (nat (s div 86400)) @ ''d'' @ sep
        @ str_nat (nat ((s mod 86400) div 3600)) @ ''h'' @ sep
        @ str_nat (nat ((s mod 3600) div 60)) @ ''m'' @ sep
        @ str_nat (nat (s mod 60)) @ ''s''"
  unfolding breakdown_token_def breakdown_def prod.case
  by (simp only: breakdown_nonneg[OF assms, THEN decimal_text_nonneg])

lemma div_below:
  assumes "0 < (c::int)" "x < c * K"
  shows "x div c < K"
proof (rule ccontr)
  assume "\<not> x div c < K"
  then have "K \<le> x div c" by simp
  with assms(1) have "c * K \<le> c * (x div c)" by (simp add: mult_left_mono)
  moreover have "c * (x div c) + x mod c = x" by simp
  moreover have "0 \<le> x mod c" using assms(1) by simp
  ultimately show False using assms(2) by linarith
qed

lemma two_digits: "n < 100 \<Longrightarrow> length (str_nat n) \<le> max_str_digits"
proof -
  assume "n < 100"
  then have "length (str_nat n) \<le> 2" using length_str_nat_le[of 2 n] by simp
  then show ?thesis by (simp add: max_str_digits_def)
qed

lemma length_nat_bound:
  assumes "0 \<le> (x::int)" "x < 10 ^ k" "0 < k"
  shows "length (str_nat (nat x)) \<le> k"
proof -
  from assms have "int (nat x) < int (10 ^ k)" by simp
  then have "nat x < 10 ^ k" by (simp only: of_nat_less_iff)
  with assms(3) show ?thesis by (rule length_str_nat_le)
qed

lemma huge_days:
  assumes "max_str_digits \<le> k"
    and sep: "list_all (\<lambda>c. \<not> isdigit c \<and> c \<notin> set ''dhms'') sep"
  shows "duration_to_seconds (Some (breakdown_token sep (86400 * 10 ^ k))) = Inl ValueError"
proof -
  have nn: "(0::int) \<le> 86400 * 10 ^ k" by simp
  have dg: "list_all isdigit (str_nat j)" "str_nat j \<noteq> []" for j
    using str_nat_digits[of j] by simp_all
  have "nat ((10::int) ^ k) = 10 ^ k" by (simp add: nat_power_eq)
  then have e: "nat ((86400 * 10 ^ k) div 86400) = 10 ^ k" by simp
  have "k < length (str_nat (10 ^ k))" by (rule length_str_nat_gt) simp
  with assms(1) have "max_str_digits < length (str_nat (10 ^ k))" by simp
  then have "max_str_digits < length (str_nat (nat ((86400 * 10 ^ k) div 86400)))"
    by (simp only: e)
  then show ?thesis
    unfolding breakdown_token_nonneg[OF nn]
    by (rule token_fails[OF sep dg dg dg dg])
qed

text \<open>
  The token of the seconds in 10 ^ 4300 days: its day component has 4301 digits, and the
  conversion of that component raises.
\<close>

theorem huge_breakdown_raises:
  "(0::int) \<le> 86400 * 10 ^ max_str_digits
   \<and> duration_to_seconds (Some (breakdown_token '' '' (86400 * 10 ^ max_str_digits)))
       = Inl ValueError"
proof -
  have "list_all (\<lambda>c. \<not> isdigit c \<and> c \<notin> set ''dhms'') '' ''"
    by (simp add: isdigit_def)
  then have "duration_to_seconds (Some (breakdown_token '' '' (86400 * 10 ^ max_str_digits)))
       = Inl ValueError"
    by (intro huge_days) simp_all
  then show ?thesis by simp
qed

text \<open>
  Claim C3, amended.  For every integer s with 0 \<le> s < 86400 * 10 ^ 4300, that is, with
  a day count of at most 4300 digits, the token built from the breakdown of s (days =
  s div 86400, hours = (s mod 86400) div 3600, minutes = (s mod 3600) div 60, seconds =
  s mod 60), each part written as a decimal integer followed by its unit letter and the
  parts joined by any separator free of digits and unit letters, decodes to s again.
\<close>

theorem breakdown_round_trip:
  assumes "0 \<le> s" and "s < 86400 * 10 ^ max_str_digits"
    and "list_all (\<lambda>c. \<not> isdigit c \<and> c \<notin> set ''dhms'') sep"
  shows "duration_to_seconds (Some (breakdown_token sep s)) = Inr s"
proof -
  have dg: "list_all isdigit (str_nat k)" "str_nat k \<noteq> []" for k
    using str_nat_digits[of k] by simp_all
  note nn = breakdown_nonneg[OF assms(1)]
  have "s div 86400 < 10 ^ max_str_digits" using _ assms(2) by (rule div_below) simp
  with nn(1) have d: "length (str_nat (nat (s div 86400))) \<le> max_str_digits"
    by (rule length_nat_bound) (simp add: max_str_digits_def)
  have "(s mod 86400) div 3600 < 24" by (rule div_below) simp_all
  with nn(2) have h': "nat ((s mod 86400) div 3600) < 100" by linarith
  have "(s mod 3600) div 60 < 60" by (rule div_below) simp_all
  with nn(3) have m': "nat ((s mod 3600) div 60) < 100" by linarith
  have "s mod 60 < 60" by simp
  with nn(4) have w': "nat (s mod 60) < 100" by linarith
  have h: "length (str_nat (nat ((s mod 86400) div 3600))) \<le> max_str_digits"
    using h' by (rule two_digits)
  have m: "length (str_nat (nat ((s mod 3600) div 60))) \<le> max_str_digits"
    using m' by (rule two_digits)
  have w: "length (str_nat (nat (s mod 60))) \<le> max_str_digits"
    using w' by (rule two_digits)
  have "duration_to_seconds (Some (breakdown_token sep s)) =
      Inr (decimal (str_nat (nat (s div 86400))) * 86400
           + decimal (str_nat (nat ((s mod 86400) div 3600))) * 3600
           + decimal (str_nat (nat ((s mod 3600) div 60))) * 60
           + decimal (str_nat (nat (s mod 60))))"
    unfolding breakdown_token_nonneg[OF assms(1)]
    by (rule token_decodes[OF assms(3) dg dg dg dg d h m w])
  also have "\<dots> = Inr (s div 86400 * 86400 + (s mod 86400) div 3600 * 3600
                        + (s mod 3600) div 60 * 60 + s mod 60)"
    unfolding decimal_str_nat by (simp only: nn int_nat_eq if_True)
  also have "\<dots> = Inr s"
    by (simp only: breakdown_recompose)
  finally show ?thesis .
qed

theorem breakdown_round_trip_witness:
  "(0::int) \<le> 604781
   \<and> (604781::int) < 86400 * 10 ^ max_str_digits
   \<and> list_all (\<lambda>c. \<not> isdigit c \<and> c \<notin> set ''dhms'') '' ''
   \<and> breakdown_token '' '' 604781 = ''6d 23h 59m 41s''
   \<and> duration_to_seconds (Some ''6d 23h 59m 41s'') = Inr 604781"
proof -
  have a: "(0::int) \<le> 604781" by simp
  have "(10::int) \<le> 10 ^ max_str_digits"
    by (rule self_le_power) (simp_all add: max_str_digits_def)
  then have a': "(604781::int) < 86400 * 10 ^ max_str_digits" by linarith
  have b: "list_all (\<lambda>c. \<not> isdigit c \<and> c \<notin> set ''dhms'') '' ''"
    by (simp add: isdigit_def)
  have c: "breakdown_token '' '' 604781 = ''6d 23h 59m 41s''"
    by (simp add: breakdown_token_def breakdown_def decimal_text_def str_nat.simps digit_char_def)
  show ?thesis using breakdown_round_trip[OF a a' b] a a' b c by simp
qed

section \<open>The end-to-end example\<close>

lemma split_from_sublist:
  "l \<in> set (split_from sep acc s) \<Longrightarrow> sublist l (rev acc @ s)"
proof (induction sep acc s rule: split_from.induct)
  case (1 sep acc)
  then show ?case by simp
next
  case (2 sep acc c cs)
  show ?case
  proof (cases "sep \<noteq> [] \<and> prefix sep (c # cs)")
    case True
    with "2.prems" consider "l = rev acc" | "l \<in> set (split_from sep [] (drop (length sep - 1) cs))"
      by auto
    then show ?thesis
    proof cases
      case 1
      then show ?thesis by simp
    next
      case 2
      with "2.IH"(1) True have "sublist l (drop (length sep - 1) cs)" by simp
      moreover have "sublist (drop (length sep - 1) cs) (rev acc @ c # cs)"
        by (metis append.assoc append_Cons append_Nil append_take_drop_id sublist_append_leftI)
      ultimately show ?thesis by (rule sublist_order.order.trans)
    qed
  next
    case False
    with "2.prems" have "l \<in> set (split_from sep (c # acc) cs)" by auto
    with "2.IH"(2) False have "sublist l (rev (c # acc) @ cs)" by blast
    then show ?thesis by simp
  qed
qed

lemma py_split_line_in_text: "l \<in> set (py_split s sep) \<Longrightarrow> py_in l s"
  using split_from_sublist[of l sep "[]" s] by (simp add: py_split_def py_in_sublist)

lemma enrich_line_keeps:
  "url (enrich_line r l) = url r" "pagina (enrich_line r l) = pagina r"
  "uptime_duracion (enrich_line r l) = uptime_duracion r"
  "downtime_duracion (enrich_line r l) = downtime_duracion r"
  by (simp_all add: enrich_line_def)

lemma enriched_keeps:
  "url (foldl enrich_line r ls) = url r \<and> pagina (foldl enrich_line r ls) = pagina r
   \<and> uptime_duracion (foldl enrich_line r ls) = uptime_duracion r
   \<and> downtime_duracion (foldl enrich_line r ls) = downtime_duracion r"
  by (induction ls arbitrary: r) (simp_all add: enrich_line_keeps)

lemma first_some_skip:
  "list_all (\<lambda>x. f x = None) xs \<Longrightarrow> first_some f (xs @ ys) = first_some f ys"
  by (induction xs) simp_all

lemma no_declaration_no_attempt:
  assumes "list_all (\<lambda>l. \<not> py_in decl_marker l) pre"
  shows "list_all (\<lambda>il. line_attempt p t n lines il = None) (enumerate k pre)"
  using assms by (induction pre arbitrary: k) (simp_all add: line_attempt_def)

lemma example_lines:
  "py_in decl_marker example_decl_line"
  "py_in ''https://example.org/'' example_decl_line"
  "guard ''https://example.org/'' example_decl_line"
  "\<not> py_in stats_marker example_decl_line"
  "py_in stats_marker example_stats_line"
  "search_stats up_pattern example_stats_line = Some (''99.50'', ''%'', ''06d 23h 59m 41s'')"
  "search_stats down_pattern example_stats_line = Some (''0.50'', ''%'', ''00d 00h 10m 00s'')"
  "duration_to_seconds (Some ''00d 00h 10m 00s'') = Inr 600"
  "duration_to_seconds (Some ''06d 23h 59m 41s'') = Inr 604781"
  by code_simp+

text \<open>
  The figure 603581 of the specification is not what the code computes for the example,
  and on a page where the two lines follow an earlier declaration of the same target the
  record is that of the earlier statistics line.
\<close>

theorem example_uptime_is_not_603581:
  "extract_uptime_stats ''report.pdf'' [example_page] ''https://example.org/''
     = Some example_record
   \<and> duration_to_seconds (Some (uptime_duracion example_record)) \<noteq> Inr 603581
   \<and> extract_uptime_stats ''report.pdf'' [shadowed_page] ''https://example.org/''
       = Some (example_record\<lparr> uptime_porcentaje := ''100'', uptime_duracion := ''07d 00h 00m 00s'',
                                downtime_porcentaje := ''0'', downtime_duracion := ''00s'' \<rparr>)
   \<and> duration_to_seconds (Some ''00s'') \<noteq> Inr 600"
  by code_simp

text \<open>
  Claim C1, amended.  For a one-page document whose lines contain the declaration line
  \<open>Probe, Group, Device: > https://example.org/\<close> immediately followed by the statistics
  line \<open>Uptime Stats: Up: 99.50 % [06d 23h 59m 41s] Down: 0.50 % [00d 00h 10m 00s]\<close>, with
  no line that contains the declaration marker before them, the extraction for the target
  \<open>https://example.org/\<close> yields exactly one record; its downtime decodes to 600 seconds
  and its uptime to 604781 seconds.
\<close>

theorem example_extraction:
  "py_split page_text newline = pre @ [example_decl_line, example_stats_line] @ post
   \<and> list_all (\<lambda>l. \<not> py_in decl_marker l) pre
   \<longrightarrow> (\<exists>r. extract_uptime_stats pdf_path [page_text] ''https://example.org/'' = Some r
            \<and> url r = ''https://example.org/'' \<and> pagina r = 1
            \<and> duration_to_seconds (Some (downtime_duracion r)) = Inr 600
            \<and> duration_to_seconds (Some (uptime_duracion r)) = Inr 604781)"
proof
  assume h: "py_split page_text newline = pre @ [example_decl_line, example_stats_line] @ post
   \<and> list_all (\<lambda>l. \<not> py_in decl_marker l) pre"
  let ?t = "''https://example.org/''"
  let ?lines = "py_split page_text newline"
  let ?k = "length pre"
  from h have lines: "?lines = pre @ [example_decl_line, example_stats_line] @ post"
    and pre: "list_all (\<lambda>l. \<not> py_in decl_marker l) pre" by blast+
  obtain r0 where r0: "stats_record pdf_path ?t 0 example_stats_line = Some r0"
    and f0: "url r0 = ?t" "pagina r0 = 1" "uptime_duracion r0 = ''06d 23h 59m 41s''"
      "downtime_duracion r0 = ''00d 00h 10m 00s''"
    by (simp add: stats_record_def example_lines)
  let ?r = "foldl enrich_line r0 (context_single ?lines ?k)"
  have nth: "?lines ! ?k = example_decl_line" "?lines ! Suc ?k = example_stats_line"
    unfolding lines by (simp_all add: nth_append)
  have len: "Suc ?k < min (?k + 10) (length ?lines)"
    unfolding lines by simp
  then have "[?k ..< min (?k + 10) (length ?lines)]
      = ?k # Suc ?k # [Suc (Suc ?k) ..< min (?k + 10) (length ?lines)]"
    by (simp add: upt_conv_Cons)
  then have window: "first_some (stats_attempt pdf_path ?t 0 ?lines ?k)
      [?k ..< min (?k + 10) (length ?lines)] = Some ?r"
    by (simp add: stats_attempt_def nth example_lines r0)
  have decl: "line_attempt pdf_path ?t 0 ?lines (?k, example_decl_line) = Some ?r"
    by (simp add: line_attempt_def example_lines window)
  have "enumerate 0 ?lines = enumerate 0 pre
      @ (?k, example_decl_line) # enumerate (Suc ?k) (example_stats_line # post)"
    unfolding lines by (simp add: enumerate_append_eq)
  then have "first_some (line_attempt pdf_path ?t 0 ?lines) (enumerate 0 ?lines)
      = first_some (line_attempt pdf_path ?t 0 ?lines)
          ((?k, example_decl_line) # enumerate (Suc ?k) (example_stats_line # post))"
    using first_some_skip[OF no_declaration_no_attempt[OF pre]] by simp
  also have "\<dots> = Some ?r"
    using decl by simp
  finally have page: "first_some (line_attempt pdf_path ?t 0 ?lines) (enumerate 0 ?lines) = Some ?r" .
  have "example_decl_line \<in> set ?lines" unfolding lines by simp
  then have "py_in example_decl_line page_text" by (rule py_split_line_in_text)
  with example_lines(2) have "py_in ?t page_text" by (rule py_in_trans)
  with page have "extract_uptime_stats pdf_path [page_text] ?t = Some ?r"
    by (simp add: extract_uptime_stats_def page_attempt_def)
  moreover have "url ?r = ?t" "pagina ?r = 1"
    "duration_to_seconds (Some (downtime_duracion ?r)) = Inr 600"
    "duration_to_seconds (Some (uptime_duracion ?r)) = Inr 604781"
    using enriched_keeps[of r0 "context_single ?lines ?k"] f0 example_lines by simp_all
  ultimately show "\<exists>r. extract_uptime_stats pdf_path [page_text] ''https://example.org/'' = Some r
            \<and> url r = ''https://example.org/'' \<and> pagina r = 1
            \<and> duration_to_seconds (Some (downtime_duracion r)) = Inr 600
            \<and> duration_to_seconds (Some (uptime_duracion r)) = Inr 604781"
    by blast
qed

theorem example_extraction_witness:
  "py_split example_page newline = [] @ [example_decl_line, example_stats_line] @ []
   \<and> extract_uptime_stats ''report.pdf'' [example_page] ''https://example.org/''
       = Some example_record
   \<and> duration_to_seconds (Some (downtime_duracion example_record)) = Inr 600
   \<and> duration_to_seconds (Some (uptime_duracion example_record)) = Inr 604781"
proof -
  have a: "py_split example_page newline = [] @ [example_decl_line, example_stats_line] @ []"
    by code_simp
  have b: "extract_uptime_stats ''report.pdf'' [example_page] ''https://example.org/''
       = Some example_record"
    by code_simp
  show ?thesis
    using a b
      example_extraction[where page_text = example_page and pre = "[]" and post = "[]"
        and pdf_path = "''report.pdf''"]
    by auto
qed

section \<open>Single-target extraction over the pages\<close>

lemma first_some_None: "first_some f xs = None \<longleftrightarrow> (\<forall>n < length xs. f (xs ! n) = None)"
proof (induction xs)
  case Nil
  then show ?case by simp
next
  case (Cons x xs)
  show ?case
  proof (cases "f x")
    case None
    with Cons show ?thesis by (auto simp: nth_Cons split: nat.splits)
  next
    case (Some y)
    then show ?thesis by auto
  qed
qed

lemma first_some_Some:
  "first_some f xs = Some y \<longleftrightarrow>
     (\<exists>n < length xs. f (xs ! n) = Some y \<and> (\<forall>k < n. f (xs ! k) = None))"
proof (induction xs)
  case Nil
  then show ?case by simp
next
  case (Cons x xs)
  show ?case
  proof (cases "f x")
    case None
    have "(\<exists>n < length (x # xs). f ((x # xs) ! n) = Some y \<and> (\<forall>k < n. f ((x # xs) ! k) = None))
      \<longleftrightarrow> (\<exists>n < length xs. f (xs ! n) = Some y \<and> (\<forall>k < n. f (xs ! k) = None))"
      (is "?L \<longleftrightarrow> ?R")
    proof
      assume ?L
      then obtain n where n: "n < length (x # xs)" "f ((x # xs) ! n) = Some y"
        "\<forall>k < n. f ((x # xs) ! k) = None" by blast
      with None obtain m where m: "n = Suc m" by (cases n) auto
      with n have "m < length xs" "f (xs ! m) = Some y" by auto
      moreover have "\<forall>k < m. f (xs ! k) = None"
      proof (intro allI impI)
        fix k assume "k < m"
        then have "Suc k < n" using m by simp
        with n(3) have "f ((x # xs) ! Suc k) = None" by blast
        then show "f (xs ! k) = None" by simp
      qed
      ultimately show ?R by blast
    next
      assume ?R
      then obtain m where m: "m < length xs" "f (xs ! m) = Some y"
        "\<forall>k < m. f (xs ! k) = None" by blast
      have "\<forall>k < Suc m. f ((x # xs) ! k) = None"
        using m(3) None by (auto simp: nth_Cons split: nat.splits)
      with m(1,2) show ?L by (intro exI[of _ "Suc m"]) auto
    qed
    with None Cons show ?thesis by simp
  next
    case (Some z)
    have "(\<exists>n < length (x # xs). f ((x # xs) ! n) = Some y \<and> (\<forall>k < n. f ((x # xs) ! k) = None))
      \<longleftrightarrow> z = y" (is "?L \<longleftrightarrow> _")
    proof
      assume ?L
      then obtain n where n: "f ((x # xs) ! n) = Some y"
        "\<forall>k < n. f ((x # xs) ! k) = None" by blast
      with Some have "n = 0" by (cases n) auto
      with n Some show "z = y" by simp
    next
      assume "z = y"
      with Some show ?L by (intro exI[of _ 0]) auto
    qed
    with Some show ?thesis by simp
  qed
qed

text \<open>
  Claim C2, amended.  A page whose text does not contain the target is skipped.  The
  record is sought on the pages that contain the target, in page order: the extraction
  returns the record of the first page whose attempt yields a match, and it returns no
  result exactly when the attempt fails on every page.  A failed attempt on one page does
  not end the scan.
\<close>

theorem extract_uptime_stats_first_matching_page:
  "(\<not> py_in target_url text \<longrightarrow> page_attempt pdf_path target_url (n, text) = None)
   \<and> (extract_uptime_stats pdf_path pages target_url = Some r \<longleftrightarrow>
        (\<exists>n < length pages.
            page_attempt pdf_path target_url (n, pages ! n) = Some r
            \<and> (\<forall>k < n. page_attempt pdf_path target_url (k, pages ! k) = None)))
   \<and> (extract_uptime_stats pdf_path pages target_url = None \<longleftrightarrow>
        (\<forall>n < length pages. page_attempt pdf_path target_url (n, pages ! n) = None))"
proof (intro conjI)
  show "\<not> py_in target_url text \<longrightarrow> page_attempt pdf_path target_url (n, text) = None"
    by (simp add: page_attempt_def)
next
  have "enumerate 0 pages ! k = (k, pages ! k)" if "k < length pages" for k
    using that by (simp add: nth_enumerate_eq)
  then show "extract_uptime_stats pdf_path pages target_url = Some r \<longleftrightarrow>
        (\<exists>n < length pages.
            page_attempt pdf_path target_url (n, pages ! n) = Some r
            \<and> (\<forall>k < n. page_attempt pdf_path target_url (k, pages ! k) = None))"
    unfolding extract_uptime_stats_def first_some_Some by (auto simp del: split_paired_Ex)
next
  have "enumerate 0 pages ! k = (k, pages ! k)" if "k < length pages" for k
    using that by (simp add: nth_enumerate_eq)
  then show "extract_uptime_stats pdf_path pages target_url = None \<longleftrightarrow>
        (\<forall>n < length pages. page_attempt pdf_path target_url (n, pages ! n) = None)"
    unfolding extract_uptime_stats_def first_some_None by auto
qed

text \<open>
  A document whose first page mentions the target without yielding a match, and whose
  second page holds the record: the extraction returns the record of page 2.
\<close>

theorem later_page_is_scanned:
  "py_in ''https://example.org/'' mention_page
   \<and> page_attempt ''report.pdf'' ''https://example.org/'' (0, mention_page) = None
   \<and> extract_uptime_stats ''report.pdf'' [mention_page, example_page] ''https://example.org/''
       = Some (example_record\<lparr>pagina := 2\<rparr>)"
  by code_simp

theorem extract_uptime_stats_first_matching_page_witness:
  "\<exists>n < length [mention_page, example_page].
      page_attempt ''report.pdf'' ''https://example.org/'' (n, [mention_page, example_page] ! n)
        = Some (example_record\<lparr>pagina := 2\<rparr>)
      \<and> (\<forall>k < n. page_attempt ''report.pdf'' ''https://example.org/''
                     (k, [mention_page, example_page] ! k) = None)"
proof -
  have "extract_uptime_stats ''report.pdf'' [mention_page, example_page] ''https://example.org/''
       = Some (example_record\<lparr>pagina := 2\<rparr>)"
    by code_simp
  then show ?thesis
    using extract_uptime_stats_first_matching_page
      [of "''https://example.org/''" "[]" "''report.pdf''" 0 "[mention_page, example_page]"
          "example_record\<lparr>pagina := 2\<rparr>"]
    by blast
qed

section \<open>One record per target in discovery mode\<close>

lemma url_enrich_line: "url (enrich_line r l) = url r"
  by (simp add: enrich_line_def)

lemma url_enriched: "url (foldl enrich_line r ls) = url r"
  by (induction ls arbitrary: r) (simp_all add: url_enrich_line)

lemma stats_record_url: "stats_record p u n l = Some r \<Longrightarrow> url r = u"
  by (auto simp: stats_record_def split: option.splits)

lemma line_step_recorded_once:
  assumes "recorded_once (snd st)"
  shows "recorded_once (snd (line_step p n lines st il))"
proof -
  obtain cur w where st: "st = (cur, w)" by (cases st)
  obtain i line where il: "il = (i, line)" by (cases il)
  from assms st have w: "recorded_once w" by simp
  show ?thesis
  proof (cases "py_in decl_marker line")
    case True
    with w show ?thesis by (simp add: st il line_step_def)
  next
    case False
    show ?thesis
    proof (cases cur)
      case None
      with w False show ?thesis by (simp add: st il line_step_def)
    next
      case (Some u)
      show ?thesis
      proof (cases "py_in stats_marker line \<and> u \<noteq> [] \<and> u \<notin> processed_urls w")
        case no: False
        with w False Some show ?thesis by (auto simp: st il line_step_def)
      next
        case yes: True
        show ?thesis
        proof (cases "stats_record p u n line")
          case None
          with w False Some yes show ?thesis by (simp add: st il line_step_def)
        next
          case (Some r)
          then have "url r = u" by (rule stats_record_url)
          with w False \<open>cur = Some u\<close> yes Some show ?thesis
            by (auto simp: st il line_step_def recorded_once_def url_enriched)
        qed
      qed
    qed
  qed
qed

lemma lines_recorded_once:
  "recorded_once (snd st) \<Longrightarrow> recorded_once (snd (foldl (line_step p n lines) st ils))"
  by (induction ils arbitrary: st) (simp_all add: line_step_recorded_once)

lemma page_step_recorded_once: "recorded_once w \<Longrightarrow> recorded_once (page_step p w pt)"
  by (cases pt) (simp add: page_step_def Let_def lines_recorded_once)

lemma pages_recorded_once:
  "recorded_once w \<Longrightarrow> recorded_once (foldl (page_step p) w pts)"
  by (induction pts arbitrary: w) (simp_all add: page_step_recorded_once)

lemma distinct_keys_once:
  "distinct (map f xs) \<Longrightarrow> length (filter (\<lambda>x. f x = a) xs) \<le> 1"
proof (induction xs)
  case Nil
  then show ?case by simp
next
  case (Cons x xs)
  show ?case
  proof (cases "f x = a")
    case True
    with Cons.prems have "f x \<notin> f ` set xs" by simp
    then have "f y \<noteq> f x" if "y \<in> set xs" for y
      using that by (metis imageI)
    then have "filter (\<lambda>x. f x = a) xs = []"
      unfolding True[symmetric] by (simp add: filter_empty_conv)
    with True show ?thesis by simp
  next
    case False
    with Cons show ?thesis by simp
  qed
qed

lemma line_step_keeps_processed:
  "processed_urls (snd st) \<subseteq> processed_urls (snd (line_step p n lines st il))"
  by (cases st; cases il) (auto simp: line_step_def split: option.splits)

lemma lines_keep_processed:
  "processed_urls (snd st) \<subseteq> processed_urls (snd (foldl (line_step p n lines) st ils))"
proof (induction ils arbitrary: st)
  case Nil
  then show ?case by simp
next
  case (Cons il ils)
  have "processed_urls (snd st) \<subseteq> processed_urls (snd (line_step p n lines st il))"
    by (rule line_step_keeps_processed)
  also have "\<dots> \<subseteq> processed_urls (snd (foldl (line_step p n lines) (line_step p n lines st il) ils))"
    by (rule Cons.IH)
  finally show ?case by simp
qed

text \<open>
  Claim C4.  In discovery mode a document yields at most one record for each target.  A
  line that is not a declaration line changes nothing while the current target is already
  marked as processed, and the set of processed targets only grows from page to page.
\<close>

theorem discovery_one_record_per_target:
  "length (filter (\<lambda>r. url r = a) (extract_all_urls_from_pdf pdf_path pages)) \<le> 1
   \<and> (u \<in> processed_urls w \<and> \<not> py_in decl_marker line \<longrightarrow>
        line_step pdf_path n lines (Some u, w) (i, line) = (Some u, w))
   \<and> processed_urls w \<subseteq> processed_urls (page_step pdf_path w (n, text))"
proof (intro conjI)
  have "recorded_once \<lparr> results = [], processed_urls = {} \<rparr>"
    by (simp add: recorded_once_def)
  then have "recorded_once (foldl (page_step pdf_path) \<lparr> results = [], processed_urls = {} \<rparr>
                (enumerate 0 pages))"
    by (rule pages_recorded_once)
  then have "distinct (map url (extract_all_urls_from_pdf pdf_path pages))"
    by (simp add: recorded_once_def extract_all_urls_from_pdf_def)
  then show "length (filter (\<lambda>r. url r = a) (extract_all_urls_from_pdf pdf_path pages)) \<le> 1"
    by (rule distinct_keys_once)
next
  show "u \<in> processed_urls w \<and> \<not> py_in decl_marker line \<longrightarrow>
        line_step pdf_path n lines (Some u, w) (i, line) = (Some u, w)"
    by (simp add: line_step_def)
next
  show "processed_urls w \<subseteq> processed_urls (page_step pdf_path w (n, text))"
    using lines_keep_processed[of "(None, w)"] by (simp add: page_step_def Let_def)
qed

theorem discovery_one_record_per_target_witness:
  "extract_all_urls_from_pdf ''report.pdf'' [ash_page, ash_page_again] = [ash_record]
   \<and> length (filter (\<lambda>r. url r = ''ash.buenosaires.gob.ar/'')
                 (extract_all_urls_from_pdf ''report.pdf'' [ash_page, ash_page_again])) \<le> 1
   \<and> ''ash.buenosaires.gob.ar/''
        \<in> processed_urls \<lparr> results = [ash_record], processed_urls = {''ash.buenosaires.gob.ar/''} \<rparr>
   \<and> \<not> py_in decl_marker example_stats_line
   \<and> line_step ''report.pdf'' 1 [ash_decl_line, example_stats_line]
         (Some ''ash.buenosaires.gob.ar/'',
          \<lparr> results = [ash_record], processed_urls = {''ash.buenosaires.gob.ar/''} \<rparr>)
         (1, example_stats_line)
       = (Some ''ash.buenosaires.gob.ar/'',
          \<lparr> results = [ash_record], processed_urls = {''ash.buenosaires.gob.ar/''} \<rparr>)"
proof -
  have a: "extract_all_urls_from_pdf ''report.pdf'' [ash_page, ash_page_again] = [ash_record]"
    by code_simp
  have b: "\<not> py_in decl_marker example_stats_line"
    by code_simp
  show ?thesis
    using a b
      discovery_one_record_per_target
        [of "''ash.buenosaires.gob.ar/''" "''report.pdf''" "[ash_page, ash_page_again]"
            "''ash.buenosaires.gob.ar/''"
            "\<lparr> results = [ash_record], processed_urls = {''ash.buenosaires.gob.ar/''} \<rparr>"
            example_stats_line 1 "[ash_decl_line, example_stats_line]" 1 "[]"]
    by simp
qed

section \<open>The guard of single-target extraction\<close>

lemma strip_decompose: "\<exists>a b. s = a @ strip s @ b \<and> list_all isspace b"
proof -
  let ?s' = "dropWhile isspace s"
  let ?b = "rev (takeWhile isspace (rev ?s'))"
  have "rev ?s' = takeWhile isspace (rev ?s') @ dropWhile isspace (rev ?s')" by simp
  then have "rev (rev ?s') = rev (dropWhile isspace (rev ?s')) @ ?b"
    by (metis rev_append)
  then have "?s' = strip s @ ?b" by (simp add: strip_def)
  then have "s = takeWhile isspace s @ strip s @ ?b"
    by (metis takeWhile_dropWhile_id)
  moreover have "list_all isspace ?b"
    by (auto simp: list_all_iff dest: set_takeWhileD)
  ultimately show ?thesis by blast
qed

lemma after_occurrences_mem: "post \<in> set (after_occurrences t (pre @ t @ post))"
proof (induction pre)
  case Nil
  show ?case
  proof (cases "t @ post")
    case Nil
    then show ?thesis by simp
  next
    case (Cons c cs)
    have "prefix t (t @ post)" by simp
    moreover have "drop (length t) (t @ post) = post" by simp
    ultimately have "prefix t (c # cs)" "drop (length t) (c # cs) = post"
      unfolding Cons by simp_all
    then have "post \<in> set (after_occurrences t (c # cs))" by simp
    then show ?thesis using Cons by simp
  qed
next
  case (Cons a pre)
  then show ?case by simp
qed

lemma guard_trailing:
  assumes "guard target line"
  shows "\<exists>b \<in> set (after_occurrences target line). list_all isspace b"
proof -
  from assms have "suffix target (strip line)" by (simp add: guard_def endswith_def)
  then obtain x where x: "strip line = x @ target" by (auto simp: suffix_def)
  from strip_decompose obtain a b where ab: "line = a @ strip line @ b" "list_all isspace b"
    by blast
  with x have "line = (a @ x) @ target @ b" by simp
  then have "b \<in> set (after_occurrences target line)"
    using after_occurrences_mem[of b target "a @ x"] by simp
  with ab(2) show ?thesis by blast
qed

text \<open>
  Claim C5.  In single-target mode a line yields a record only if it contains the
  declaration marker and the target, contains neither \<open>/tramites\<close> nor \<open>/educacion\<close>,
  and ends with the target once white space is trimmed.  A line that contains one of the
  listed subpath targets, and a line in which every occurrence of the target is continued
  by further text, are rejected by the guard, and a rejected line produces no record.
\<close>

theorem guard_rejects_longer_targets:
  "(line_attempt pdf_path target_url page_num lines (i, line) \<noteq> None \<longrightarrow>
      py_in decl_marker line \<and> py_in target_url line
      \<and> \<not> py_in ''/tramites'' line \<and> \<not> py_in ''/educacion'' line
      \<and> suffix target_url (strip line))
   \<and> (py_in ''buenosaires.gob.ar/tramites'' line \<or> py_in ''buenosaires.gob.ar/educacion'' line
        \<longrightarrow> \<not> guard target_url line)
   \<and> (list_all continued (after_occurrences target_url line) \<longrightarrow> \<not> guard target_url line)
   \<and> (\<not> guard target_url line \<longrightarrow>
        line_attempt pdf_path target_url page_num lines (i, line) = None)"
proof (intro conjI impI)
  assume a: "line_attempt pdf_path target_url page_num lines (i, line) \<noteq> None"
  then have "py_in decl_marker line \<and> py_in target_url line \<and> guard target_url line"
    by (auto simp: line_attempt_def split: if_splits)
  then show "py_in decl_marker line" "py_in target_url line"
    "\<not> py_in ''/tramites'' line" "\<not> py_in ''/educacion'' line"
    "suffix target_url (strip line)"
    by (simp_all add: guard_def endswith_def)
next
  assume "py_in ''buenosaires.gob.ar/tramites'' line \<or> py_in ''buenosaires.gob.ar/educacion'' line"
  moreover have "py_in ''/tramites'' ''buenosaires.gob.ar/tramites''" by code_simp
  moreover have "py_in ''/educacion'' ''buenosaires.gob.ar/educacion''" by code_simp
  ultimately have "py_in ''/tramites'' line \<or> py_in ''/educacion'' line"
    using py_in_trans by blast
  then show "\<not> guard target_url line" by (auto simp: guard_def)
next
  assume c: "list_all continued (after_occurrences target_url line)"
  show "\<not> guard target_url line"
  proof
    assume "guard target_url line"
    then obtain b where b: "b \<in> set (after_occurrences target_url line)" "list_all isspace b"
      using guard_trailing by blast
    with c have "continued b" by (simp add: list_all_iff)
    with b(2) show False by (cases b) (simp_all add: continued_def)
  qed
next
  assume "\<not> guard target_url line"
  then show "line_attempt pdf_path target_url page_num lines (i, line) = None"
    by (simp add: line_attempt_def)
qed

theorem guard_rejects_longer_targets_witness:
  "line_attempt ''report.pdf'' ''https://example.org/'' 0
       [example_decl_line, example_stats_line] (0, example_decl_line) \<noteq> None
   \<and> suffix ''https://example.org/'' (strip example_decl_line)
   \<and> py_in ''buenosaires.gob.ar/tramites'' tramites_decl_line
   \<and> list_all continued (after_occurrences ''https://buenosaires.gob.ar/'' tramites_decl_line)
   \<and> \<not> guard ''https://buenosaires.gob.ar/'' tramites_decl_line
   \<and> line_attempt ''report.pdf'' ''https://buenosaires.gob.ar/'' 0
        [tramites_decl_line, example_stats_line] (0, tramites_decl_line) = None"
proof -
  have a: "line_attempt ''report.pdf'' ''https://example.org/'' 0
       [example_decl_line, example_stats_line] (0, example_decl_line) \<noteq> None"
    by code_simp
  have b: "py_in ''buenosaires.gob.ar/tramites'' tramites_decl_line"
    by code_simp
  have c: "list_all continued (after_occurrences ''https://buenosaires.gob.ar/'' tramites_decl_line)"
    by code_simp
  show ?thesis
    using a b c
      guard_rejects_longer_targets
        [of "''report.pdf''" "''https://example.org/''" 0
            "[example_decl_line, example_stats_line]" 0 example_decl_line]
      guard_rejects_longer_targets
        [of "''report.pdf''" "''https://buenosaires.gob.ar/''" 0
            "[tramites_decl_line, example_stats_line]" 0 tramites_decl_line]
    by blast
qed

section \<open>Classification of declaration lines\<close>

text \<open>
  Claim C6.  The claim asks that the most specific literal of a declaration line become
  the current target.  On the declaration line of the subpath \<open>/tramites\<close> written with its
  scheme, which contains both the main form and the subpath form, \<open>classify\<close> chooses the
  main target, because that test comes first; the record of the page is attributed to
  the main target, while the extraction for the main target itself rejects the same line.
\<close>

theorem first_listed_form_wins:
  "py_in ''> https://buenosaires.gob.ar/'' tramites_decl_line
   \<and> py_in ''buenosaires.gob.ar/tramites'' tramites_decl_line
   \<and> classify tramites_decl_line None = Some ''https://buenosaires.gob.ar/''
   \<and> map url (extract_all_urls_from_pdf ''report.pdf'' [tramites_page])
       = [''https://buenosaires.gob.ar/'']
   \<and> extract_uptime_stats ''report.pdf'' [tramites_page] ''https://buenosaires.gob.ar/'' = None"
  by code_simp

section \<open>Aggregation\<close>


















section \<open>The current target is reset on every page\<close>

lemma line_step_no_target:
  "\<not> py_in decl_marker line \<Longrightarrow> line_step p n lines (None, w) (i, line) = (None, w)"
  by (simp add: line_step_def)

lemma lines_before_declaration:
  "list_all (\<lambda>l. \<not> py_in decl_marker l) pre \<Longrightarrow>
   foldl (line_step p n lines) (None, w) (enumerate k pre) = (None, w)"
  by (induction pre arbitrary: k) (simp_all add: line_step_no_target)

text \<open>
  Claim C9.  Every page starts without a current target, whatever the pages before it
  declared: the lines of a page that precede its first declaration line produce no
  record and leave the walk as it was, so the page is processed as if it began at its
  first declaration line; a page without any declaration line changes nothing.  The set
  of processed targets is handed from page to page and never shrinks.
\<close>

theorem statistics_before_declaration:
  "(list_all (\<lambda>l. \<not> py_in decl_marker l) pre \<longrightarrow>
      foldl (line_step pdf_path n lines) (None, w) (enumerate k pre) = (None, w))
   \<and> (py_split text newline = pre @ rest \<and> list_all (\<lambda>l. \<not> py_in decl_marker l) pre \<longrightarrow>
        page_step pdf_path w (n, text)
          = snd (foldl (line_step pdf_path n (pre @ rest)) (None, w)
                   (enumerate (length pre) rest)))
   \<and> (list_all (\<lambda>l. \<not> py_in decl_marker l) (py_split text newline) \<longrightarrow>
        page_step pdf_path w (n, text) = w)
   \<and> processed_urls w \<subseteq> processed_urls (page_step pdf_path w (n, text))"
proof (intro conjI impI)
  assume "list_all (\<lambda>l. \<not> py_in decl_marker l) pre"
  then show "foldl (line_step pdf_path n lines) (None, w) (enumerate k pre) = (None, w)"
    by (rule lines_before_declaration)
next
  assume a: "py_split text newline = pre @ rest \<and> list_all (\<lambda>l. \<not> py_in decl_marker l) pre"
  then have "foldl (line_step pdf_path n (pre @ rest)) (None, w) (enumerate 0 pre) = (None, w)"
    by (intro lines_before_declaration) simp
  with a show "page_step pdf_path w (n, text)
          = snd (foldl (line_step pdf_path n (pre @ rest)) (None, w)
                   (enumerate (length pre) rest))"
    by (simp add: page_step_def Let_def enumerate_append_eq)
next
  assume "list_all (\<lambda>l. \<not> py_in decl_marker l) (py_split text newline)"
  then show "page_step pdf_path w (n, text) = w"
    by (simp add: page_step_def Let_def lines_before_declaration)
next
  show "processed_urls w \<subseteq> processed_urls (page_step pdf_path w (n, text))"
    using lines_keep_processed[of "(None, w)"] by (simp add: page_step_def Let_def)
qed

theorem statistics_before_declaration_witness:
  "py_split stats_first_page newline = [example_stats_line] @ [ash_decl_line]
   \<and> list_all (\<lambda>l. \<not> py_in decl_marker l) [example_stats_line]
   \<and> page_step ''report.pdf'' \<lparr> results = [], processed_urls = {} \<rparr> (1, stats_first_page)
       = \<lparr> results = [], processed_urls = {} \<rparr>
   \<and> extract_all_urls_from_pdf ''report.pdf'' [ash_decl_line, stats_first_page] = []"
proof -
  have a: "py_split stats_first_page newline = [example_stats_line] @ [ash_decl_line]"
    by code_simp
  have b: "list_all (\<lambda>l. \<not> py_in decl_marker l) [example_stats_line]"
    by code_simp
  have c: "snd (foldl (line_step ''report.pdf'' 1 ([example_stats_line] @ [ash_decl_line]))
                  (None, \<lparr> results = [], processed_urls = {} \<rparr>)
                  (enumerate (length [example_stats_line]) [ash_decl_line]))
           = \<lparr> results = [], processed_urls = {} \<rparr>"
    by code_simp
  have d: "extract_all_urls_from_pdf ''report.pdf'' [ash_decl_line, stats_first_page] = []"
    by code_simp
  show ?thesis
    using a b c d
      statistics_before_declaration
        [of "[example_stats_line]" "''report.pdf''" 1 "[]"
            "\<lparr> results = [], processed_urls = {} \<rparr>" 0 stats_first_page "[ash_decl_line]"]
    by simp
qed

section \<open>Unrecognized declaration lines\<close>












end
